theory Spec2Isabelle
  imports Main "HOL-Library.AList"
begin

section \<open>php-runner: a shallow embedding of main.go\<close>

text \<open>
  The program picks one of several configured PHP executables for the current directory
  and runs it with the arguments it was given. Everything the Go code takes from its
  surroundings (environment variables, the file system, the output of \<^verbatim>\<open>php --version\<close>,
  the child process) is a field of the record \<open>world\<close>; every function that reads or
  changes the surroundings takes a world and returns the new one. A Go \<^verbatim>\<open>string\<close> is a
  byte sequence and is modelled as \<open>string\<close>; the empty string is Go's zero value.
\<close>

subsection \<open>Package strings\<close>

text \<open>
  \<^verbatim>\<open>strings.TrimSpace\<close> removes leading and trailing Unicode white space. On a UTF-8 byte
  string that is the removal, from both ends, of the encodings of the white-space code
  points: the six ASCII ones and U+0085, U+00A0, U+1680, U+2000 to U+200A, U+2028, U+2029,
  U+202F, U+205F, U+3000.
\<close>

definition asciiSpace :: "string list" where
  "asciiSpace = [[CHR 0x09], [CHR 0x0A], [CHR 0x0B], [CHR 0x0C], [CHR 0x0D], [CHR 0x20]]"

definition unicodeSpace :: "string list" where
  "unicodeSpace =
     [[CHR 0xC2, CHR 0x85], [CHR 0xC2, CHR 0xA0], [CHR 0xE1, CHR 0x9A, CHR 0x80],
      [CHR 0xE2, CHR 0x80, CHR 0x80], [CHR 0xE2, CHR 0x80, CHR 0x81],
      [CHR 0xE2, CHR 0x80, CHR 0x82], [CHR 0xE2, CHR 0x80, CHR 0x83],
      [CHR 0xE2, CHR 0x80, CHR 0x84], [CHR 0xE2, CHR 0x80, CHR 0x85],
      [CHR 0xE2, CHR 0x80, CHR 0x86], [CHR 0xE2, CHR 0x80, CHR 0x87],
      [CHR 0xE2, CHR 0x80, CHR 0x88], [CHR 0xE2, CHR 0x80, CHR 0x89],
      [CHR 0xE2, CHR 0x80, CHR 0x8A], [CHR 0xE2, CHR 0x80, CHR 0xA8],
      [CHR 0xE2, CHR 0x80, CHR 0xA9], [CHR 0xE2, CHR 0x80, CHR 0xAF],
      [CHR 0xE2, CHR 0x81, CHR 0x9F], [CHR 0xE3, CHR 0x80, CHR 0x80]]"

definition spaces :: "string list" where
  "spaces = asciiSpace @ unicodeSpace"

definition strings_HasPrefix :: "string \<Rightarrow> string \<Rightarrow> bool" where
  "strings_HasPrefix s p = (length p \<le> length s \<and> take (length p) s = p)"

definition strings_HasSuffix :: "string \<Rightarrow> string \<Rightarrow> bool" where
  "strings_HasSuffix s p = (length p \<le> length s \<and> drop (length s - length p) s = p)"

function trimLeft :: "string \<Rightarrow> string" where
  "trimLeft s =
     (case find (strings_HasPrefix s) spaces of
        Some sp \<Rightarrow> trimLeft (drop (length sp) s)
      | None \<Rightarrow> s)"
  by pat_completeness auto

lemma spaces_nonempty: "sp \<in> set spaces \<Longrightarrow> sp \<noteq> []"
  by (auto simp: spaces_def asciiSpace_def unicodeSpace_def)

termination trimLeft
proof (relation "measure length")
  show "wf (measure length)" by simp
next
  fix s sp
  assume "find (strings_HasPrefix s) spaces = Some sp"
  then have "sp \<in> set spaces" "strings_HasPrefix s sp"
    by (auto simp: find_Some_iff)
  then have "sp \<noteq> []" "length sp \<le> length s"
    by (auto simp: spaces_nonempty strings_HasPrefix_def)
  then show "(drop (length sp) s, s) \<in> measure length"
    by (cases sp) auto
qed

function trimRight :: "string \<Rightarrow> string" where
  "trimRight s =
     (case find (strings_HasSuffix s) spaces of
        Some sp \<Rightarrow> trimRight (take (length s - length sp) s)
      | None \<Rightarrow> s)"
  by pat_completeness auto

termination trimRight
proof (relation "measure length")
  show "wf (measure length)" by simp
next
  fix s sp
  assume "find (strings_HasSuffix s) spaces = Some sp"
  then have "sp \<in> set spaces" "strings_HasSuffix s sp"
    by (auto simp: find_Some_iff)
  then have "sp \<noteq> []" "length sp \<le> length s"
    by (auto simp: spaces_nonempty strings_HasSuffix_def)
  then show "(take (length s - length sp) s, s) \<in> measure length"
    by (cases sp) auto
qed

declare trimLeft.simps [simp del] trimRight.simps [simp del]

definition strings_TrimSpace :: "string \<Rightarrow> string" where
  "strings_TrimSpace s = trimRight (trimLeft s)"

text \<open>\<^verbatim>\<open>strings.Join(elems, sep)\<close>.\<close>

fun strings_Join :: "string list \<Rightarrow> string \<Rightarrow> string" where
  "strings_Join [] sep = []"
| "strings_Join [x] sep = x"
| "strings_Join (x # y # zs) sep = x @ sep @ strings_Join (y # zs) sep"

text \<open>
  \<^verbatim>\<open>strings.SplitN(s, sep, 2)\<close> for a one-byte separator: the text before the first
  separator and the text after it, or the whole string alone when it has no separator.
\<close>

definition strings_SplitN2 :: "string \<Rightarrow> char \<Rightarrow> string list" where
  "strings_SplitN2 s sep =
     (if sep \<in> set s
      then [takeWhile (\<lambda>c. c \<noteq> sep) s, drop 1 (dropWhile (\<lambda>c. c \<noteq> sep) s)]
      else [s])"

subsection \<open>Package path/filepath (the Unix implementation)\<close>

fun splitOn :: "char \<Rightarrow> string \<Rightarrow> string list" where
  "splitOn c [] = [[]]"
| "splitOn c (x # xs) =
     (if x = c then [] # splitOn c xs
      else (case splitOn c xs of
              [] \<Rightarrow> [[x]]
            | y # ys \<Rightarrow> (x # y) # ys))"

text \<open>
  \<^verbatim>\<open>filepath.Clean\<close> reads the path element by element and keeps the elements written so
  far (\<open>out\<close>, last element first): an empty element and \<^verbatim>\<open>.\<close> are dropped; \<^verbatim>\<open>..\<close> removes
  the last element written when there is one to backtrack over, is dropped at the root of a
  rooted path, and is kept at the front of a relative one.
\<close>

fun cleanElem :: "bool \<Rightarrow> string list \<Rightarrow> string \<Rightarrow> string list" where
  "cleanElem rooted out e =
     (if e = [] then out
      else if e = ''.'' then out
      else if e = ''..'' then
        (case out of
           [] \<Rightarrow> if rooted then [] else [''..'']
         | t # ts \<Rightarrow> if t = ''..'' then ''..'' # t # ts else ts)
      else e # out)"

definition filepath_Clean :: "string \<Rightarrow> string" where
  "filepath_Clean path =
     (if path = [] then ''.''
      else
        let rooted = (hd path = CHR ''/'');
            out = (if rooted then ''/'' else []) @
                  strings_Join (rev (foldl (cleanElem rooted) [] (splitOn (CHR ''/'') path))) ''/''
        in if out = [] then ''.'' else out)"

text \<open>\<^verbatim>\<open>filepath.Join\<close>: leading empty elements are ignored, the rest is joined and cleaned.\<close>

definition filepath_Join :: "string list \<Rightarrow> string" where
  "filepath_Join elem =
     (case dropWhile (\<lambda>e. e = []) elem of
        [] \<Rightarrow> []
      | es \<Rightarrow> filepath_Clean (strings_Join es ''/''))"

text \<open>\<^verbatim>\<open>filepath.Dir\<close>: the path up to and including its last separator, cleaned.\<close>

definition filepath_Dir :: "string \<Rightarrow> string" where
  "filepath_Dir path = filepath_Clean (rev (dropWhile (\<lambda>c. c \<noteq> CHR ''/'') (rev path)))"

subsection \<open>The regular expression \<^verbatim>\<open>PHP (\d+\.\d+)\<close>\<close>

definition isDigit :: "char \<Rightarrow> bool" where
  "isDigit c = (c \<in> set ''0123456789'')"

text \<open>The match anchored at the start of \<open>s\<close>: the text of the capture group.\<close>

definition matchPHPVersion :: "string \<Rightarrow> string option" where
  "matchPHPVersion s =
     (if strings_HasPrefix s ''PHP '' then
        let r = drop 4 s;
            major = takeWhile isDigit r;
            r1 = dropWhile isDigit r;
            minor = takeWhile isDigit (drop 1 r1)
        in if major \<noteq> [] \<and> strings_HasPrefix r1 ''.'' \<and> minor \<noteq> []
           then Some (major @ ''.'' @ minor) else None
      else None)"

text \<open>\<^verbatim>\<open>FindStringSubmatch\<close>: the leftmost match; \<open>None\<close> is the nil slice.\<close>

fun regexp_FindStringSubmatch :: "string \<Rightarrow> string option" where
  "regexp_FindStringSubmatch [] = matchPHPVersion []"
| "regexp_FindStringSubmatch (c # cs) =
     (case matchPHPVersion (c # cs) of
        Some v \<Rightarrow> Some v
      | None \<Rightarrow> regexp_FindStringSubmatch cs)"

subsection \<open>The surroundings of the process\<close>

type_synonym path = string

text \<open>The error of \<^verbatim>\<open>os.Stat\<close>: only \<open>ErrNotExist\<close> satisfies \<^verbatim>\<open>os.IsNotExist\<close>.\<close>

datatype os_error = ErrNotExist | ErrOther

definition os_IsNotExist :: "os_error option \<Rightarrow> bool" where
  "os_IsNotExist err = (err = Some ErrNotExist)"

text \<open>
  What becomes of the child process, and what \<^verbatim>\<open>cmd.Run\<close> returns for it: nil for exit
  status 0, an \<^verbatim>\<open>*exec.ExitError\<close> when the child started and did not complete
  successfully (\<open>ExitError (Some c)\<close> when its \<^verbatim>\<open>Sys()\<close> is a \<^verbatim>\<open>syscall.WaitStatus\<close> whose
  \<^verbatim>\<open>ExitStatus()\<close> is \<open>c\<close>, which is -1 for a child ended by a signal), another error when
  it could not be started.
\<close>

datatype child_outcome = NotStarted | Exited int | Signaled

datatype run_error = ExitError "int option" | StartError

fun cmd_Run :: "child_outcome \<Rightarrow> run_error option" where
  "cmd_Run NotStarted = Some StartError"
| "cmd_Run (Exited c) = (if c = 0 then None else Some (ExitError (Some c)))"
| "cmd_Run Signaled = Some (ExitError (Some (- 1)))"

text \<open>The errors the program builds with \<^verbatim>\<open>fmt.Errorf\<close>, with the values they report.\<close>

datatype find_error =
    ConfigNotFound string   \<comment> \<open>the searched paths, joined by newlines\<close>
  | NoLocations

datatype config_error =
    CannotOpen
  | InvalidFormat nat string        \<comment> \<open>line number, line\<close>
  | EmptyVersionOrPath nat string   \<comment> \<open>line number, line\<close>
  | ReadError
  | NoValidVersions

text \<open>The lines the program prints, with the values they show.\<close>

datatype message =
    MsgErrorFindingConfig find_error
  | MsgErrorLoadingConfig path config_error
  | MsgErrorCurrentDir
  | MsgVersionNotInConfig string
  | MsgExecutableNotFound path
  | MsgErrorExecuting
  | MsgWarnExecutableNotFound path nat
  | MsgNoValidVersion
  | MsgWarnCouldNotCreate path
  | MsgCreated path string

datatype event =
    ReadFile path
  | WriteFile path string
  | ExecPhpVersion
  | RunChild path "string list"
  | Print message

record world =
  goos :: string                                  \<comment> \<open>\<^verbatim>\<open>runtime.GOOS\<close>\<close>
  getenv :: "string \<Rightarrow> string"                    \<comment> \<open>\<^verbatim>\<open>os.Getenv\<close>\<close>
  executable :: "path option"                     \<comment> \<open>\<^verbatim>\<open>os.Executable\<close>, \<open>None\<close> on error\<close>
  getwd :: "path option"                          \<comment> \<open>\<^verbatim>\<open>os.Getwd\<close>, \<open>None\<close> on error\<close>
  args :: "string list"                           \<comment> \<open>\<^verbatim>\<open>os.Args[1:]\<close>\<close>
  stat :: "path \<Rightarrow> os_error option"               \<comment> \<open>the error of \<^verbatim>\<open>os.Stat\<close>\<close>
  scan :: "path \<Rightarrow> (string list \<times> bool) option"   \<comment> \<open>\<^verbatim>\<open>os.Open\<close> and the scanner, see below\<close>
  files :: "path \<rightharpoonup> string"                       \<comment> \<open>what \<^verbatim>\<open>os.ReadFile\<close> returns\<close>
  writable :: "path \<Rightarrow> bool"                       \<comment> \<open>whether \<^verbatim>\<open>os.WriteFile\<close> succeeds\<close>
  phpOutput :: "string option"                    \<comment> \<open>output of \<^verbatim>\<open>php --version\<close>, \<open>None\<close> on error\<close>
  rangeSeed :: nat                                \<comment> \<open>where the iteration over a map starts\<close>
  child :: "path \<Rightarrow> string list \<Rightarrow> child_outcome"
  trace :: "event list"                           \<comment> \<open>what the process has done so far\<close>

text \<open>
  \<open>scan w p\<close> is \<open>None\<close> when \<^verbatim>\<open>os.Open\<close> fails. Otherwise it holds the lines that
  \<^verbatim>\<open>scanner.Scan\<close> yields one after the other, and whether \<^verbatim>\<open>scanner.Err\<close> is an error
  once \<^verbatim>\<open>Scan\<close> has returned false.
\<close>

definition os_ReadFile :: "path \<Rightarrow> world \<Rightarrow> string option \<times> world" where
  "os_ReadFile name w = (files w name, w\<lparr>trace := trace w @ [ReadFile name]\<rparr>)"

text \<open>\<open>os_WriteFile\<close> returns whether the write succeeded (\<^verbatim>\<open>err == nil\<close>).\<close>

definition os_WriteFile :: "path \<Rightarrow> string \<Rightarrow> world \<Rightarrow> bool \<times> world" where
  "os_WriteFile name data w =
     (if writable w name
      then (True, w\<lparr>files := (files w)(name \<mapsto> data),
                     stat := (stat w)(name := None),
                     trace := trace w @ [WriteFile name data]\<rparr>)
      else (False, w\<lparr>trace := trace w @ [WriteFile name data]\<rparr>))"

definition fmt_Printf :: "message \<Rightarrow> world \<Rightarrow> world" where
  "fmt_Printf m w = w\<lparr>trace := trace w @ [Print m]\<rparr>"

subsection \<open>The configuration\<close>

text \<open>
  \<^verbatim>\<open>type Config map[string]string\<close>: an association list with one pair per key.
  \<open>config[k]\<close> is the empty string for a key that is absent; \<open>config[k] = v\<close> is
  \<open>AList.update\<close>; \<open>len(config)\<close> is the length of the list.
\<close>

type_synonym Config = "(string \<times> string) list"

definition configFileName :: string where
  "configFileName = ''php-runner.yaml''"

definition versionFile :: string where
  "versionFile = ''.php-version''"

definition defaultVersion :: string where
  "defaultVersion = ''8.2''"

definition index :: "Config \<Rightarrow> string \<Rightarrow> string" where
  "index config k = (case map_of config k of None \<Rightarrow> [] | Some v \<Rightarrow> v)"

text \<open>
  \<^verbatim>\<open>for ver := range config\<close> visits the keys from a starting point that Go chooses at
  random: \<open>rangeFirst\<close> is the first key visited, \<open>None\<close> for an empty map.
\<close>

definition rangeFirst :: "Config \<Rightarrow> nat \<Rightarrow> string option" where
  "rangeFirst config seed =
     (if config = [] then None else Some (fst (config ! (seed mod length config))))"

subsection \<open>findConfigFile\<close>

definition searchPaths :: "world \<Rightarrow> path list" where
  "searchPaths w =
     (if goos w = ''windows'' then
        (if getenv w ''USERPROFILE'' \<noteq> []
         then [filepath_Join [getenv w ''USERPROFILE'', configFileName]] else []) @
        (if getenv w ''APPDATA'' \<noteq> []
         then [filepath_Join [getenv w ''APPDATA'', configFileName]] else []) @
        (if getenv w ''PROGRAMDATA'' \<noteq> []
         then [filepath_Join [getenv w ''PROGRAMDATA'', configFileName]] else [])
      else
        (if getenv w ''HOME'' \<noteq> []
         then [filepath_Join [getenv w ''HOME'', ''.'' @ configFileName]] else []) @
        [filepath_Join [''/etc'', configFileName]] @
        [filepath_Join [''/usr/local'', configFileName]]) @
     (case executable w of
        Some exePath \<Rightarrow> [filepath_Join [filepath_Dir exePath, configFileName]]
      | None \<Rightarrow> [])"

definition findConfigFile :: "world \<Rightarrow> path \<times> find_error option" where
  "findConfigFile w =
     (case find (\<lambda>p. stat w p = None) (searchPaths w) of
        Some p \<Rightarrow> (p, None)
      | None \<Rightarrow>
          if length (searchPaths w) > 0
          then (searchPaths w ! 0,
                Some (ConfigNotFound (strings_Join (searchPaths w) ''\<newline>'')))
          else ([], Some NoLocations))"

subsection \<open>loadConfig\<close>

text \<open>
  The body of the loop over the scanned lines; \<open>n\<close> is \<^verbatim>\<open>lineNumber\<close> before the
  increment.
\<close>

fun loadLines :: "string list \<Rightarrow> nat \<Rightarrow> Config \<Rightarrow> world \<Rightarrow> (config_error + Config) \<times> world" where
  "loadLines [] n config w = (Inr config, w)"
| "loadLines (text # rest) n config w =
     (let lineNumber = n + 1;
          line = strings_TrimSpace text
      in if line = [] \<or> strings_HasPrefix line ''#'' then loadLines rest lineNumber config w
         else
           let parts = strings_SplitN2 line (CHR '':'')
           in if length parts \<noteq> 2 then (Inl (InvalidFormat lineNumber line), w)
              else
                let version = strings_TrimSpace (parts ! 0);
                    path = strings_TrimSpace (parts ! 1)
                in if version = [] \<or> path = []
                   then (Inl (EmptyVersionOrPath lineNumber line), w)
                   else if os_IsNotExist (stat w path)
                   then loadLines rest lineNumber config
                          (fmt_Printf (MsgWarnExecutableNotFound path lineNumber) w)
                   else loadLines rest lineNumber (AList.update version path config) w)"

definition loadConfig :: "path \<Rightarrow> world \<Rightarrow> (config_error + Config) \<times> world" where
  "loadConfig configPath w =
     (case scan w configPath of
        None \<Rightarrow> (Inl CannotOpen, w)
      | Some (lines, scanErr) \<Rightarrow>
          (case loadLines lines 0 [] w of
             (Inl e, w1) \<Rightarrow> (Inl e, w1)
           | (Inr config, w1) \<Rightarrow>
               if scanErr then (Inl ReadError, w1)
               else if length config = 0 then (Inl NoValidVersions, w1)
               else (Inr config, w1)))"

subsection \<open>findPhpVersionFile\<close>

text \<open>
  The loop ends when \<^verbatim>\<open>filepath.Dir\<close> returns the directory it was given. Each other step
  makes the directory shorter or reaches \<^verbatim>\<open>.\<close> or \<^verbatim>\<open>/\<close>, which is what the termination
  proof needs.
\<close>

definition weight :: "string list \<Rightarrow> nat" where
  "weight xs = sum_list (map (\<lambda>x. Suc (length x)) xs)"

definition empties :: "string list \<Rightarrow> nat" where
  "empties xs = length (filter (\<lambda>e. e = []) xs)"

definition dirMeasure :: "string \<Rightarrow> nat" where
  "dirMeasure p = (if p = ''.'' \<or> p = ''/'' then 0 else Suc (length p))"

lemma splitOn_nonempty: "splitOn c s \<noteq> []"
  by (induction s) (auto split: list.splits)

lemma weight_splitOn: "weight (splitOn c s) = Suc (length s)"
  by (induction s) (auto simp: weight_def splitOn_nonempty split: list.splits)

lemma length_Join: "xs \<noteq> [] \<Longrightarrow> Suc (length (strings_Join xs ''/'')) = weight xs"
  by (induction xs "''/''" rule: strings_Join.induct) (auto simp: weight_def)

lemma weight_cleanElem:
  "weight (cleanElem r out e) + (if e = [] then 1 else 0) \<le> weight out + Suc (length e)"
  by (auto simp: weight_def split: list.splits)

lemma weight_foldl:
  "weight (foldl (cleanElem r) out es) + empties es \<le> weight out + weight es"
proof (induction es arbitrary: out)
  case Nil
  then show ?case by (simp add: weight_def empties_def)
next
  case (Cons e es)
  have "weight (foldl (cleanElem r) (cleanElem r out e) es) + empties es
        \<le> weight (cleanElem r out e) + weight es"
    by (rule Cons.IH)
  moreover have "weight (cleanElem r out e) + (if e = [] then 1 else 0)
        \<le> weight out + Suc (length e)"
    by (rule weight_cleanElem)
  moreover have "weight (e # es) = Suc (length e) + weight es"
    by (simp add: weight_def)
  ultimately show ?case
    by (simp add: empties_def del: cleanElem.simps split: if_splits)
qed

lemma splitOn_snoc: "splitOn c (s @ [c]) = splitOn c s @ [[]]"
  by (induction s) (auto simp: splitOn_nonempty split: list.splits)

lemma empties_trailing: "1 \<le> empties (splitOn c (s @ [c]))"
  by (simp add: splitOn_snoc empties_def)

lemma empties_rooted_trailing:
  assumes "s \<noteq> []" "hd s = c" "last s = c"
  shows "2 \<le> empties (splitOn c s)"
proof -
  from assms obtain t where s: "s = c # t" by (cases s) auto
  show ?thesis
  proof (cases "t = []")
    case True
    with s show ?thesis by (simp add: empties_def)
  next
    case False
    with assms s have "t = butlast t @ [c]" by (metis append_butlast_last_id last_ConsR)
    then have "1 \<le> empties (splitOn c t)" using empties_trailing by metis
    with s show ?thesis by (simp add: empties_def)
  qed
qed

lemma Clean_trailing_slash:
  assumes "s \<noteq> []" "last s = CHR ''/''"
  shows "filepath_Clean s = ''.'' \<or> filepath_Clean s = ''/''
         \<or> length (filepath_Clean s) < length s"
proof -
  let ?r = "hd s = CHR ''/''"
  let ?st = "foldl (cleanElem ?r) [] (splitOn (CHR ''/'') s)"
  have w: "weight ?st + empties (splitOn (CHR ''/'') s) \<le> Suc (length s)"
    using weight_foldl [of ?r "[]" "splitOn (CHR ''/'') s"] weight_splitOn [of "CHR ''/''" s]
    by (simp add: weight_def)
  show ?thesis
  proof (cases "?st = []")
    case True
    then show ?thesis using assms by (simp add: filepath_Clean_def Let_def)
  next
    case False
    then have l: "Suc (length (strings_Join (rev ?st) ''/'')) = weight (rev ?st)"
      by (intro length_Join) simp
    have wr: "weight (rev ?st) = weight ?st"
      by (simp add: weight_def rev_map [symmetric])
    show ?thesis
    proof (cases ?r)
      case True
      then have "2 \<le> empties (splitOn (CHR ''/'') s)"
        using assms by (intro empties_rooted_trailing) auto
      with w l wr have "length (filepath_Clean s) < length s"
        using True assms(1) by (simp add: filepath_Clean_def Let_def)
      then show ?thesis by simp
    next
      case nr: False
      have "s = butlast s @ [CHR ''/'']" using assms by (metis append_butlast_last_id)
      then have "1 \<le> empties (splitOn (CHR ''/'') s)" using empties_trailing by metis
      with w l wr have "length (strings_Join (rev ?st) ''/'') < length s" by simp
      moreover have "strings_Join (rev ?st) ''/'' \<noteq> [] \<Longrightarrow>
          filepath_Clean s = strings_Join (rev ?st) ''/''"
        using nr assms(1) by (simp add: filepath_Clean_def Let_def)
      moreover have "strings_Join (rev ?st) ''/'' = [] \<Longrightarrow> filepath_Clean s = ''.''"
        using nr assms(1) by (simp add: filepath_Clean_def Let_def)
      ultimately show ?thesis by metis
    qed
  qed
qed

lemma Dir_cases:
  "filepath_Dir p = ''.'' \<or> filepath_Dir p = ''/'' \<or> length (filepath_Dir p) < length p"
proof -
  let ?pre = "rev (dropWhile (\<lambda>c. c \<noteq> CHR ''/'') (rev p))"
  show ?thesis
  proof (cases "?pre = []")
    case True
    then show ?thesis by (simp add: filepath_Dir_def filepath_Clean_def)
  next
    case False
    then have "last ?pre = CHR ''/''"
      using hd_dropWhile [of "\<lambda>c. c \<noteq> CHR ''/''" "rev p"] by (simp add: last_rev)
    with False have "filepath_Clean ?pre = ''.'' \<or> filepath_Clean ?pre = ''/''
        \<or> length (filepath_Clean ?pre) < length ?pre"
      by (intro Clean_trailing_slash)
    moreover have "length ?pre \<le> length p"
      using length_dropWhile_le [of _ "rev p"] by simp
    ultimately show ?thesis unfolding filepath_Dir_def by linarith
  qed
qed

lemma Dir_dot: "filepath_Dir ''.'' = ''.''"
  by (simp add: filepath_Dir_def filepath_Clean_def)

lemma Dir_root: "filepath_Dir ''/'' = ''/''"
  by (simp add: filepath_Dir_def filepath_Clean_def)

lemma Dir_decreases: "filepath_Dir p \<noteq> p \<Longrightarrow> dirMeasure (filepath_Dir p) < dirMeasure p"
  using Dir_cases [of p] Dir_dot Dir_root
  by (auto simp: dirMeasure_def)

function findPhpVersionFile :: "path \<Rightarrow> world \<Rightarrow> string \<times> world" where
  "findPhpVersionFile dir w =
     (let versionPath = filepath_Join [dir, versionFile];
          (content, w1) = os_ReadFile versionPath w;
          version = (case content of Some c \<Rightarrow> strings_TrimSpace c | None \<Rightarrow> [])
      in if content \<noteq> None \<and> version \<noteq> [] then (version, w1)
         else
           let parent = filepath_Dir dir
           in if parent = dir then ([], w1)
              else findPhpVersionFile parent w1)"
  by pat_completeness auto
termination
  by (relation "measure (\<lambda>(dir, w). dirMeasure dir)") (auto simp: Dir_decreases)

declare findPhpVersionFile.simps [simp del]

subsection \<open>getCurrentPhpVersion, createPhpVersionFile, getPhpVersion\<close>

definition getCurrentPhpVersion :: "world \<Rightarrow> string \<times> world" where
  "getCurrentPhpVersion w =
     (let w1 = w\<lparr>trace := trace w @ [ExecPhpVersion]\<rparr>
      in case phpOutput w of
           None \<Rightarrow> ([], w1)
         | Some output \<Rightarrow>
             (case regexp_FindStringSubmatch output of
                Some v \<Rightarrow> (v, w1)
              | None \<Rightarrow> ([], w1)))"

definition createPhpVersionFile :: "path \<Rightarrow> string \<Rightarrow> world \<Rightarrow> world" where
  "createPhpVersionFile dir version w =
     (let versionPath = filepath_Join [dir, versionFile];
          (ok, w1) = os_WriteFile versionPath (version @ ''\<newline>'') w
      in if \<not> ok then fmt_Printf (MsgWarnCouldNotCreate versionPath) w1
         else fmt_Printf (MsgCreated versionPath version) w1)"

text \<open>\<open>None\<close> is \<^verbatim>\<open>os.Exit(1)\<close>: the function does not return.\<close>

definition getPhpVersion :: "path \<Rightarrow> Config \<Rightarrow> world \<Rightarrow> string option \<times> world" where
  "getPhpVersion cwd config w =
     (let (version, w1) = findPhpVersionFile cwd w
      in if version \<noteq> [] \<and> index config version \<noteq> [] then (Some version, w1)
         else
           let (currentVersion, w2) = getCurrentPhpVersion w1
           in if currentVersion \<noteq> [] \<and> index config currentVersion \<noteq> []
              then (Some currentVersion, createPhpVersionFile cwd currentVersion w2)
              else if index config defaultVersion \<noteq> []
              then (Some defaultVersion, createPhpVersionFile cwd defaultVersion w2)
              else
                (case rangeFirst config (rangeSeed w2) of
                   Some ver \<Rightarrow> (Some ver, createPhpVersionFile cwd ver w2)
                 | None \<Rightarrow> (None, fmt_Printf MsgNoValidVersion w2)))"

subsection \<open>main\<close>

text \<open>\<open>main\<close> returns the exit code of the process and the world it leaves.\<close>

definition main :: "world \<Rightarrow> int \<times> world" where
  "main w =
     (case findConfigFile w of
        (configPath, Some err) \<Rightarrow> (1, fmt_Printf (MsgErrorFindingConfig err) w)
      | (configPath, None) \<Rightarrow>
     (case loadConfig configPath w of
        (Inl err, w1) \<Rightarrow> (1, fmt_Printf (MsgErrorLoadingConfig configPath err) w1)
      | (Inr config, w1) \<Rightarrow>
     (case getwd w1 of
        None \<Rightarrow> (1, fmt_Printf MsgErrorCurrentDir w1)
      | Some cwd \<Rightarrow>
     (case getPhpVersion cwd config w1 of
        (None, w2) \<Rightarrow> (1, w2)
      | (Some version, w2) \<Rightarrow>
     (case map_of config version of
        None \<Rightarrow> (1, fmt_Printf (MsgVersionNotInConfig version) w2)
      | Some phpPath \<Rightarrow>
          if os_IsNotExist (stat w2 phpPath)
          then (1, fmt_Printf (MsgExecutableNotFound phpPath) w2)
          else
            let w3 = w2\<lparr>trace := trace w2 @ [RunChild phpPath (args w2)]\<rparr>
            in (case cmd_Run (child w3 phpPath (args w3)) of
                  None \<Rightarrow> (0, w3)
                | Some (ExitError (Some status)) \<Rightarrow> (status, w3)
                | Some _ \<Rightarrow> (1, fmt_Printf MsgErrorExecuting w3)))))))"

section \<open>The marker lookup\<close>

subsection \<open>The chain of directories and the nearest marker\<close>

text \<open>
  The words of the specification: the marker file of a directory, its label (the trimmed
  content, empty when the file cannot be read), and the chain of directories from a start
  directory up to the root, the root being the directory that is its own parent.
\<close>

definition markerPath :: "path \<Rightarrow> path" where
  "markerPath dir = filepath_Join [dir, versionFile]"

definition markerLabel :: "world \<Rightarrow> path \<Rightarrow> string" where
  "markerLabel w dir =
     (case files w (markerPath dir) of Some c \<Rightarrow> strings_TrimSpace c | None \<Rightarrow> [])"

function dirChain :: "path \<Rightarrow> path list" where
  "dirChain dir = dir # (if filepath_Dir dir = dir then [] else dirChain (filepath_Dir dir))"
  by pat_completeness auto
termination
  by (relation "measure dirMeasure") (auto simp: Dir_decreases)

declare dirChain.simps [simp del]

text \<open>The directories of the chain up to and including the first one that has a label.\<close>

definition visited :: "world \<Rightarrow> path \<Rightarrow> path list" where
  "visited w start =
     take (Suc (length (takeWhile (\<lambda>d. markerLabel w d = []) (dirChain start))))
       (dirChain start)"

text \<open>Worlds to evaluate the program on.\<close>

definition world0 :: world where
  "world0 = \<lparr>goos = ''linux'', getenv = (\<lambda>_. []), executable = None, getwd = None,
     args = [], stat = (\<lambda>_. Some ErrNotExist), scan = (\<lambda>_. None), files = Map.empty,
     writable = (\<lambda>_. True), phpOutput = None, rangeSeed = 0,
     child = (\<lambda>_ _. NotStarted), trace = []\<rparr>"

definition treeWorld :: world where
  "treeWorld = world0\<lparr>files := [''/a/.php-version'' \<mapsto> ''7.4\<newline>'']\<rparr>"

lemma find_unfold:
  "findPhpVersionFile dir w =
     (let w1 = w\<lparr>trace := trace w @ [ReadFile (markerPath dir)]\<rparr>
      in if markerLabel w dir \<noteq> [] then (markerLabel w dir, w1)
         else if filepath_Dir dir = dir then ([], w1)
         else findPhpVersionFile (filepath_Dir dir) w1)"
  by (subst findPhpVersionFile.simps)
     (auto simp: Let_def os_ReadFile_def markerLabel_def markerPath_def split: option.splits)

lemma markerLabel_trace [simp]: "markerLabel (w\<lparr>trace := t\<rparr>) d = markerLabel w d"
  by (simp add: markerLabel_def)

lemma find_result:
  "fst (findPhpVersionFile dir w) =
     (case find (\<lambda>d. markerLabel w d \<noteq> []) (dirChain dir) of
        None \<Rightarrow> [] | Some d \<Rightarrow> markerLabel w d)"
proof (induction dir arbitrary: w rule: dirChain.induct)
  case (1 dir)
  show ?case
    using "1.IH" [of "w\<lparr>trace := trace w @ [ReadFile (markerPath dir)]\<rparr>"]
    by (subst find_unfold, subst dirChain.simps) (simp add: Let_def cong: option.case_cong)
qed

lemma visited_unfold:
  "visited w dir =
     dir # (if markerLabel w dir \<noteq> [] \<or> filepath_Dir dir = dir then []
            else visited w (filepath_Dir dir))"
  by (simp add: visited_def dirChain.simps [of dir])

lemma visited_trace [simp]: "visited (w\<lparr>trace := t\<rparr>) d = visited w d"
  by (simp add: visited_def)

lemma find_world:
  "snd (findPhpVersionFile dir w) =
     w\<lparr>trace := trace w @ map (\<lambda>d. ReadFile (markerPath d)) (visited w dir)\<rparr>"
proof (induction dir arbitrary: w rule: dirChain.induct)
  case (1 dir)
  show ?case
    using "1.IH" [of "w\<lparr>trace := trace w @ [ReadFile (markerPath dir)]\<rparr>"]
    by (subst find_unfold, subst visited_unfold) (simp add: Let_def)
qed

lemma dirChain_last: "filepath_Dir (last (dirChain dir)) = last (dirChain dir)"
proof (induction dir rule: dirChain.induct)
  case (1 dir)
  then show ?case
    by (subst (1 2) dirChain.simps) (simp add: dirChain.simps [of "filepath_Dir dir"])
qed

lemma dirChain_step:
  "Suc i < length (dirChain dir) \<Longrightarrow> dirChain dir ! Suc i = filepath_Dir (dirChain dir ! i)"
proof (induction dir arbitrary: i rule: dirChain.induct)
  case (1 dir)
  show ?case
  proof (cases "filepath_Dir dir = dir")
    case True
    with "1.prems" show ?thesis by (subst (asm) dirChain.simps) simp
  next
    case False
    have c: "dirChain dir = dir # dirChain (filepath_Dir dir)"
      using False by (subst dirChain.simps) simp
    show ?thesis
    proof (cases i)
      case 0
      then show ?thesis
        by (simp add: c) (subst dirChain.simps, simp)
    next
      case (Suc j)
      with "1.prems" c have "Suc j < length (dirChain (filepath_Dir dir))" by simp
      then have "dirChain (filepath_Dir dir) ! Suc j
          = filepath_Dir (dirChain (filepath_Dir dir) ! j)"
        using False by (intro "1.IH")
      with Suc c show ?thesis by simp
    qed
  qed
qed

lemma dirChain_hd: "dirChain dir ! 0 = dir"
  by (subst dirChain.simps) simp

text \<open>
  C6. From every start directory and in every file system, \<open>findPhpVersionFile\<close> returns
  the label of the first directory of the chain (the start directory, its parent, and so on
  up to the root) whose marker file can be read and has a non-empty trimmed content, and
  reads no marker file beyond that directory. When no directory of the chain has one, it
  has read the marker path of every directory of the chain, ends at the root, the directory
  that is its own parent, and returns the empty string. The function is total, so it
  terminates in both cases.
\<close>

theorem findPhpVersionFile_nearest:
  "fst (findPhpVersionFile startDir w) =
     (case find (\<lambda>d. markerLabel w d \<noteq> []) (dirChain startDir) of
        None \<Rightarrow> [] | Some d \<Rightarrow> markerLabel w d)
   \<and> snd (findPhpVersionFile startDir w) =
       w\<lparr>trace := trace w @ map (\<lambda>d. ReadFile (markerPath d)) (visited w startDir)\<rparr>
   \<and> dirChain startDir ! 0 = startDir
   \<and> (\<forall>i. Suc i < length (dirChain startDir) \<longrightarrow>
          dirChain startDir ! Suc i = filepath_Dir (dirChain startDir ! i))
   \<and> filepath_Dir (last (dirChain startDir)) = last (dirChain startDir)"
  by (simp add: find_result find_world dirChain_hd dirChain_step dirChain_last)

lemma treeWorld_chain: "dirChain ''/a/b/c'' = [''/a/b/c'', ''/a/b'', ''/a'', ''/'']"
  by code_simp

lemma treeWorld_labels:
  "map (markerLabel treeWorld) [''/a/b/c'', ''/a/b'', ''/a'', ''/''] = [[], [], ''7.4'', []]"
  by code_simp

theorem findPhpVersionFile_nearest_witness:
  "fst (findPhpVersionFile ''/a/b/c'' treeWorld) = ''7.4''
   \<and> trace (snd (findPhpVersionFile ''/a/b/c'' treeWorld)) =
       [ReadFile (markerPath ''/a/b/c''), ReadFile (markerPath ''/a/b''),
        ReadFile (markerPath ''/a'')]
   \<and> dirChain ''/a/b/c'' ! Suc 2 = filepath_Dir (dirChain ''/a/b/c'' ! 2)"
proof -
  note n = findPhpVersionFile_nearest [of "''/a/b/c''" treeWorld]
  have t: "trace treeWorld = []"
    by (simp add: treeWorld_def world0_def)
  have "fst (findPhpVersionFile ''/a/b/c'' treeWorld) =
     (case find (\<lambda>d. markerLabel treeWorld d \<noteq> []) (dirChain ''/a/b/c'') of
        None \<Rightarrow> [] | Some d \<Rightarrow> markerLabel treeWorld d)"
    using n by (rule conjunct1)
  then have a: "fst (findPhpVersionFile ''/a/b/c'' treeWorld) = ''7.4''"
    using treeWorld_labels by (simp add: treeWorld_chain)
  have "snd (findPhpVersionFile ''/a/b/c'' treeWorld) =
       treeWorld\<lparr>trace := trace treeWorld @
         map (\<lambda>d. ReadFile (markerPath d)) (visited treeWorld ''/a/b/c'')\<rparr>"
    using n by (rule conjunct1 [OF conjunct2])
  then have b: "trace (snd (findPhpVersionFile ''/a/b/c'' treeWorld)) =
       [ReadFile (markerPath ''/a/b/c''), ReadFile (markerPath ''/a/b''),
        ReadFile (markerPath ''/a'')]"
    using treeWorld_labels by (simp add: treeWorld_chain visited_def t)
  have "\<forall>i. Suc i < length (dirChain ''/a/b/c'') \<longrightarrow>
          dirChain ''/a/b/c'' ! Suc i = filepath_Dir (dirChain ''/a/b/c'' ! i)"
    using n by (rule conjunct1 [OF conjunct2 [OF conjunct2 [OF conjunct2]]])
  then have "Suc 2 < length (dirChain ''/a/b/c'') \<longrightarrow>
          dirChain ''/a/b/c'' ! Suc 2 = filepath_Dir (dirChain ''/a/b/c'' ! 2)"
    by (rule spec)
  moreover have "Suc 2 < length (dirChain ''/a/b/c'')"
    by (simp add: treeWorld_chain)
  ultimately have c: "dirChain ''/a/b/c'' ! Suc 2 = filepath_Dir (dirChain ''/a/b/c'' ! 2)"
    by (rule mp)
  from a b c show ?thesis by (intro conjI)
qed

text \<open>
  C7. \<open>findPhpVersionFile\<close> changes nothing: the world it returns is the world it was
  given with a longer trace, the file contents are the same, and everything it has added
  to the trace is the reading of a file. Calling it again returns the same label, and so
  does calling it in any other world whose readable files are the same.
\<close>

theorem findPhpVersionFile_readonly:
  "snd (findPhpVersionFile startDir w) =
     w\<lparr>trace := trace (snd (findPhpVersionFile startDir w))\<rparr>
   \<and> files (snd (findPhpVersionFile startDir w)) = files w
   \<and> take (length (trace w)) (trace (snd (findPhpVersionFile startDir w))) = trace w
   \<and> (\<forall>e \<in> set (drop (length (trace w)) (trace (snd (findPhpVersionFile startDir w)))).
          \<exists>p. e = ReadFile p)
   \<and> fst (findPhpVersionFile startDir (snd (findPhpVersionFile startDir w))) =
       fst (findPhpVersionFile startDir w)
   \<and> (\<forall>w'. files w' = files w \<longrightarrow>
          fst (findPhpVersionFile startDir w') = fst (findPhpVersionFile startDir w))"
proof -
  let ?w = "snd (findPhpVersionFile startDir w)"
  have same: "\<And>w'. files w' = files w \<Longrightarrow> markerLabel w' = markerLabel w"
    by (rule ext) (simp add: markerLabel_def)
  have tr: "trace ?w = trace w @ map (\<lambda>d. ReadFile (markerPath d)) (visited w startDir)"
    by (simp add: find_world)
  have a: "?w = w\<lparr>trace := trace ?w\<rparr>"
    by (simp add: find_world)
  have b: "files ?w = files w"
    by (simp add: find_world)
  have c: "take (length (trace w)) (trace ?w) = trace w"
    by (simp add: tr)
  have d: "\<forall>e \<in> set (drop (length (trace w)) (trace ?w)). \<exists>p. e = ReadFile p"
    by (auto simp: tr)
  have f: "\<forall>w'. files w' = files w \<longrightarrow>
      fst (findPhpVersionFile startDir w') = fst (findPhpVersionFile startDir w)"
  proof (intro allI impI)
    fix w' :: world
    assume "files w' = files w"
    then have "markerLabel w' = markerLabel w" by (rule same)
    then show "fst (findPhpVersionFile startDir w') = fst (findPhpVersionFile startDir w)"
      unfolding find_result by (rule arg_cong)
  qed
  have e: "fst (findPhpVersionFile startDir ?w) = fst (findPhpVersionFile startDir w)"
    using f b by blast
  from a b c d e f show ?thesis by (intro conjI)
qed

theorem findPhpVersionFile_readonly_witness:
  "files (snd (findPhpVersionFile ''/a/b/c'' treeWorld)) = files treeWorld
   \<and> (\<exists>p. hd (trace (snd (findPhpVersionFile ''/a/b/c'' treeWorld))) = ReadFile p)
   \<and> fst (findPhpVersionFile ''/a/b/c'' (snd (findPhpVersionFile ''/a/b/c'' treeWorld))) = ''7.4''
   \<and> fst (findPhpVersionFile ''/a/b/c'' (treeWorld\<lparr>trace := [ExecPhpVersion]\<rparr>)) = ''7.4''"
proof -
  let ?w = "snd (findPhpVersionFile ''/a/b/c'' treeWorld)"
  note r = findPhpVersionFile_readonly [of "''/a/b/c''" treeWorld]
  have v: "fst (findPhpVersionFile ''/a/b/c'' treeWorld) = ''7.4''"
    by code_simp
  have t: "trace treeWorld = []"
    by (simp add: treeWorld_def world0_def)
  have a: "files ?w = files treeWorld"
    using r by (rule conjunct1 [OF conjunct2])
  have "\<forall>e \<in> set (drop (length (trace treeWorld)) (trace ?w)). \<exists>p. e = ReadFile p"
    using r by (rule conjunct1 [OF conjunct2 [OF conjunct2 [OF conjunct2]]])
  moreover have "hd (trace ?w) \<in> set (drop (length (trace treeWorld)) (trace ?w))"
    by (simp add: t find_world visited_unfold [of _ "''/a/b/c''"])
  ultimately have b: "\<exists>p. hd (trace ?w) = ReadFile p"
    by (rule bspec)
  have "fst (findPhpVersionFile ''/a/b/c'' ?w) = fst (findPhpVersionFile ''/a/b/c'' treeWorld)"
    using r by (rule conjunct1 [OF conjunct2 [OF conjunct2 [OF conjunct2 [OF conjunct2]]]])
  with v have c: "fst (findPhpVersionFile ''/a/b/c'' ?w) = ''7.4''"
    by simp
  have "\<forall>w'. files w' = files treeWorld \<longrightarrow>
      fst (findPhpVersionFile ''/a/b/c'' w') = fst (findPhpVersionFile ''/a/b/c'' treeWorld)"
    using r by (rule conjunct2 [OF conjunct2 [OF conjunct2 [OF conjunct2 [OF conjunct2]]]])
  then have "files (treeWorld\<lparr>trace := [ExecPhpVersion]\<rparr>) = files treeWorld \<longrightarrow>
      fst (findPhpVersionFile ''/a/b/c'' (treeWorld\<lparr>trace := [ExecPhpVersion]\<rparr>))
        = fst (findPhpVersionFile ''/a/b/c'' treeWorld)"
    by (rule spec)
  with v have d: "fst (findPhpVersionFile ''/a/b/c'' (treeWorld\<lparr>trace := [ExecPhpVersion]\<rparr>)) = ''7.4''"
    by simp
  from a b c d show ?thesis by (intro conjI)
qed

section \<open>Version resolution\<close>

subsection \<open>What getPhpVersion does, branch by branch\<close>

text \<open>
  The words of the specification: the label the ambient probe detects, a label being
  present in the configuration (the test \<^verbatim>\<open>v != "" && config[v] != ""\<close> of the code),
  and the reads of the marker lookup.
\<close>

definition ambientLabel :: "world \<Rightarrow> string" where
  "ambientLabel w = fst (getCurrentPhpVersion w)"

definition known :: "Config \<Rightarrow> string \<Rightarrow> bool" where
  "known config v = (v \<noteq> [] \<and> index config v \<noteq> [])"

definition markerReads :: "world \<Rightarrow> path \<Rightarrow> event list" where
  "markerReads w cwd = map (\<lambda>d. ReadFile (markerPath d)) (visited w cwd)"

definition staleWorld :: world where
  "staleWorld = world0\<lparr>files := [''/p/.php-version'' \<mapsto> ''9.9\<newline>'']\<rparr>"

definition ambientWorld :: world where
  "ambientWorld = world0\<lparr>phpOutput := Some ''PHP 8.1.27 (cli) (built: Jan  1 2024)''\<rparr>"

definition config82 :: Config where
  "config82 = [(''8.2'', ''/bin/php82'')]"

definition config74 :: Config where
  "config74 = [(''7.4'', ''/bin/php74''), (''8.1'', ''/bin/php81'')]"

lemma getCurrentPhpVersion_eq:
  "getCurrentPhpVersion w = (ambientLabel w, w\<lparr>trace := trace w @ [ExecPhpVersion]\<rparr>)"
  by (simp add: getCurrentPhpVersion_def ambientLabel_def Let_def split: option.splits)

lemma ambientLabel_trace [simp]: "ambientLabel (w\<lparr>trace := t\<rparr>) = ambientLabel w"
  by (simp add: ambientLabel_def getCurrentPhpVersion_def Let_def split: option.splits)

lemma createPhpVersionFile_eq:
  "createPhpVersionFile dir v w =
     (if writable w (markerPath dir)
      then w\<lparr>files := (files w)(markerPath dir \<mapsto> v @ ''\<newline>''),
             stat := (stat w)(markerPath dir := None),
             trace := trace w @ [WriteFile (markerPath dir) (v @ ''\<newline>''),
                                 Print (MsgCreated (markerPath dir) v)]\<rparr>
      else w\<lparr>trace := trace w @ [WriteFile (markerPath dir) (v @ ''\<newline>''),
                                 Print (MsgWarnCouldNotCreate (markerPath dir))]\<rparr>)"
  by (simp add: createPhpVersionFile_def os_WriteFile_def fmt_Printf_def markerPath_def Let_def)

lemma getPhpVersion_eq:
  "getPhpVersion cwd config w =
     (let marker = fst (findPhpVersionFile cwd w);
          w1 = w\<lparr>trace := trace w @ markerReads w cwd\<rparr>;
          w2 = w\<lparr>trace := trace w @ markerReads w cwd @ [ExecPhpVersion]\<rparr>
      in if known config marker then (Some marker, w1)
         else if known config (ambientLabel w)
         then (Some (ambientLabel w), createPhpVersionFile cwd (ambientLabel w) w2)
         else if index config defaultVersion \<noteq> []
         then (Some defaultVersion, createPhpVersionFile cwd defaultVersion w2)
         else (case rangeFirst config (rangeSeed w) of
                 Some ver \<Rightarrow> (Some ver, createPhpVersionFile cwd ver w2)
               | None \<Rightarrow> (None, fmt_Printf MsgNoValidVersion w2)))"
  by (simp add: getPhpVersion_def split_beta getCurrentPhpVersion_eq find_world Let_def
      known_def markerReads_def)

lemma rangeFirst_key: "rangeFirst config seed = Some ver \<Longrightarrow> ver \<in> fst ` set config"
  by (auto simp: rangeFirst_def split: if_splits)

lemma rangeFirst_None: "rangeFirst config seed = None \<longleftrightarrow> config = []"
  by (simp add: rangeFirst_def)

lemma markerReads_no_exec: "ExecPhpVersion \<notin> set (markerReads w cwd)"
  by (auto simp: markerReads_def)

lemma getPhpVersion_cases:
  obtains
    (marker) "known config (fst (findPhpVersionFile cwd w))"
      "getPhpVersion cwd config w =
        (Some (fst (findPhpVersionFile cwd w)), w\<lparr>trace := trace w @ markerReads w cwd\<rparr>)"
  | (fallback) v where "\<not> known config (fst (findPhpVersionFile cwd w))"
      "getPhpVersion cwd config w =
        (Some v, createPhpVersionFile cwd v
                   (w\<lparr>trace := trace w @ markerReads w cwd @ [ExecPhpVersion]\<rparr>))"
  | (none) "\<not> known config (fst (findPhpVersionFile cwd w))"
      "getPhpVersion cwd config w =
        (None, w\<lparr>trace := trace w @ markerReads w cwd
                                @ [ExecPhpVersion, Print MsgNoValidVersion]\<rparr>)"
proof (cases "known config (fst (findPhpVersionFile cwd w))")
  case True
  then show ?thesis by (intro marker) (simp_all add: getPhpVersion_eq Let_def)
next
  case m: False
  show ?thesis
  proof (cases "fst (getPhpVersion cwd config w)")
    case None
    with m show ?thesis
      by (intro none)
         (auto simp: getPhpVersion_eq Let_def fmt_Printf_def split: if_splits option.splits)
  next
    case (Some v)
    with m show ?thesis
      by (intro fallback [of v])
         (auto simp: getPhpVersion_eq Let_def split: if_splits option.splits)
  qed
qed

lemma treeWorld_known: "known config74 (fst (findPhpVersionFile ''/a/b/c'' treeWorld))"
  by code_simp

lemma treeWorld_trace: "trace treeWorld = []"
  by (simp add: treeWorld_def world0_def)

text \<open>
  C3. The decision order of \<open>getPhpVersion\<close>. When the marker lookup yields a label that
  the configuration has, that label is returned and the trace gains the reads of the lookup
  and nothing else: \<^verbatim>\<open>php --version\<close> is not run. Otherwise the probe is run, after all
  the reads of the lookup, and whatever follows it is a write or a printed line; the label
  of the probe is returned when the configuration has it, else the default label \<^verbatim>\<open>8.2\<close>
  when the configuration has it, else some key of a non-empty configuration, and with an
  empty configuration the function does not return.
\<close>

theorem getPhpVersion_decision_order:
  "(known config (fst (findPhpVersionFile cwd w)) \<longrightarrow>
      fst (getPhpVersion cwd config w) = Some (fst (findPhpVersionFile cwd w))
      \<and> trace (snd (getPhpVersion cwd config w)) = trace w @ markerReads w cwd
      \<and> ExecPhpVersion \<notin> set (markerReads w cwd))
   \<and> (\<not> known config (fst (findPhpVersionFile cwd w)) \<longrightarrow>
      (\<exists>rest. trace (snd (getPhpVersion cwd config w)) =
           trace w @ markerReads w cwd @ [ExecPhpVersion] @ rest
         \<and> (\<forall>e \<in> set rest. (\<exists>p d. e = WriteFile p d) \<or> (\<exists>m. e = Print m)))
      \<and> (known config (ambientLabel w) \<longrightarrow>
            fst (getPhpVersion cwd config w) = Some (ambientLabel w))
      \<and> (\<not> known config (ambientLabel w) \<and> index config defaultVersion \<noteq> [] \<longrightarrow>
            fst (getPhpVersion cwd config w) = Some defaultVersion)
      \<and> (\<not> known config (ambientLabel w) \<and> index config defaultVersion = []
            \<and> config \<noteq> [] \<longrightarrow>
            (\<exists>ver \<in> fst ` set config. fst (getPhpVersion cwd config w) = Some ver))
      \<and> (\<not> known config (ambientLabel w) \<and> index config defaultVersion = []
            \<and> config = [] \<longrightarrow>
            fst (getPhpVersion cwd config w) = None))"
proof (cases "known config (fst (findPhpVersionFile cwd w))")
  case True
  then show ?thesis
    by (simp add: getPhpVersion_eq Let_def markerReads_no_exec)
next
  case m: False
  show ?thesis
  proof (cases "known config (ambientLabel w)")
    case True
    with m show ?thesis
      by (simp add: getPhpVersion_eq Let_def createPhpVersionFile_eq)
  next
    case a: False
    show ?thesis
    proof (cases "index config defaultVersion \<noteq> []")
      case True
      with m a show ?thesis
        by (simp add: getPhpVersion_eq Let_def createPhpVersionFile_eq)
    next
      case d: False
      show ?thesis
      proof (cases "rangeFirst config (rangeSeed w)")
        case None
        then have "config = []" by (simp add: rangeFirst_None)
        with m a d None show ?thesis
          by (simp add: getPhpVersion_eq Let_def fmt_Printf_def)
      next
        case (Some ver)
        then have "ver \<in> fst ` set config" by (rule rangeFirst_key)
        moreover from Some have "config \<noteq> []" by (auto simp: rangeFirst_def)
        ultimately show ?thesis
          using m a d Some
          by (simp add: getPhpVersion_eq Let_def createPhpVersionFile_eq)
      qed
    qed
  qed
qed

theorem getPhpVersion_decision_order_witness:
  "fst (getPhpVersion ''/a/b/c'' config74 treeWorld) = Some ''7.4''
   \<and> ExecPhpVersion \<notin> set (trace (snd (getPhpVersion ''/a/b/c'' config74 treeWorld)))
   \<and> fst (getPhpVersion ''/p'' config74 ambientWorld) = Some ''8.1''
   \<and> fst (getPhpVersion ''/p'' config82 world0) = Some ''8.2''
   \<and> fst (getPhpVersion ''/p'' [] world0) = None"
proof -
  note t = getPhpVersion_decision_order [of config74 "''/a/b/c''" treeWorld]
  have v: "fst (findPhpVersionFile ''/a/b/c'' treeWorld) = ''7.4''"
    by code_simp
  from t treeWorld_known
  have "fst (getPhpVersion ''/a/b/c'' config74 treeWorld)
          = Some (fst (findPhpVersionFile ''/a/b/c'' treeWorld))
      \<and> trace (snd (getPhpVersion ''/a/b/c'' config74 treeWorld))
          = trace treeWorld @ markerReads treeWorld ''/a/b/c''
      \<and> ExecPhpVersion \<notin> set (markerReads treeWorld ''/a/b/c'')"
    by (rule mp [OF conjunct1])
  then have a: "fst (getPhpVersion ''/a/b/c'' config74 treeWorld) = Some ''7.4''"
    and b: "ExecPhpVersion \<notin> set (trace (snd (getPhpVersion ''/a/b/c'' config74 treeWorld)))"
    by (simp_all add: v treeWorld_trace)
  note u = getPhpVersion_decision_order [of config74 "''/p''" ambientWorld]
  have ku: "\<not> known config74 (fst (findPhpVersionFile ''/p'' ambientWorld))"
    "known config74 (ambientLabel ambientWorld)" "ambientLabel ambientWorld = ''8.1''"
    by code_simp+
  from u ku have c: "fst (getPhpVersion ''/p'' config74 ambientWorld) = Some ''8.1''"
    by simp
  note d = getPhpVersion_decision_order [of config82 "''/p''" world0]
  have kd: "\<not> known config82 (fst (findPhpVersionFile ''/p'' world0))"
    "\<not> known config82 (ambientLabel world0)" "index config82 defaultVersion \<noteq> []"
    "defaultVersion = ''8.2''"
    by code_simp+
  from d kd(1,2,3) have "fst (getPhpVersion ''/p'' config82 world0) = Some defaultVersion"
    by simp
  then have e: "fst (getPhpVersion ''/p'' config82 world0) = Some ''8.2''"
    by (simp add: kd(4))
  note n = getPhpVersion_decision_order [of "[]" "''/p''" world0]
  have kn: "\<not> known [] (fst (findPhpVersionFile ''/p'' world0))"
    "\<not> known [] (ambientLabel world0)" "index [] defaultVersion = []"
    by code_simp+
  from n kn have f: "fst (getPhpVersion ''/p'' [] world0) = None"
    by simp
  from a b c e f show ?thesis by (intro conjI)
qed

subsection \<open>When the marker file is written\<close>

text \<open>
  C1, as stated, fails. The directory \<^verbatim>\<open>/p\<close> holds a marker file with the label \<^verbatim>\<open>9.9\<close>,
  which the configuration does not have: the resolver falls back to the default label and
  overwrites the marker file of \<^verbatim>\<open>/p\<close>.
\<close>

theorem getPhpVersion_overwrites_marker:
  "files staleWorld (markerPath ''/p'') = Some ''9.9\<newline>''
   \<and> fst (getPhpVersion ''/p'' config82 staleWorld) = Some ''8.2''
   \<and> files (snd (getPhpVersion ''/p'' config82 staleWorld)) (markerPath ''/p'')
        = Some ''8.2\<newline>''
   \<and> WriteFile (markerPath ''/p'') ''8.2\<newline>''
        \<in> set (trace (snd (getPhpVersion ''/p'' config82 staleWorld)))"
  by code_simp

text \<open>
  C1, amended. When the marker lookup yields a label that the configuration has, the
  resolver only reads: the world it returns is the world it was given with a longer trace,
  and all it has added to the trace is the reading of files. In every run, a write happens
  only when the lookup yielded no label that the configuration has and a fallback label
  was determined; it is a write of that label, followed by a newline, to the marker file
  of the start directory, and no other file changes.
\<close>

theorem getPhpVersion_writes_only_on_fallback:
  "(known config (fst (findPhpVersionFile cwd w)) \<longrightarrow>
      snd (getPhpVersion cwd config w) =
        w\<lparr>trace := trace (snd (getPhpVersion cwd config w))\<rparr>
      \<and> (\<forall>e \<in> set (drop (length (trace w)) (trace (snd (getPhpVersion cwd config w)))).
            \<exists>p. e = ReadFile p))
   \<and> (\<forall>p d. WriteFile p d
              \<in> set (drop (length (trace w)) (trace (snd (getPhpVersion cwd config w)))) \<longrightarrow>
          \<not> known config (fst (findPhpVersionFile cwd w))
          \<and> p = markerPath cwd
          \<and> (\<exists>v. fst (getPhpVersion cwd config w) = Some v \<and> d = v @ ''\<newline>''))
   \<and> (\<forall>p. p \<noteq> markerPath cwd \<longrightarrow>
          files (snd (getPhpVersion cwd config w)) p = files w p)"
proof (cases rule: getPhpVersion_cases [of config cwd w])
  case marker
  then show ?thesis by (auto simp: markerReads_def)
next
  case (fallback v)
  then show ?thesis by (auto simp: createPhpVersionFile_eq markerReads_def)
next
  case none
  then show ?thesis by (auto simp: markerReads_def)
qed

theorem getPhpVersion_writes_only_on_fallback_witness:
  "snd (getPhpVersion ''/a/b/c'' config74 treeWorld) =
     treeWorld\<lparr>trace := trace (snd (getPhpVersion ''/a/b/c'' config74 treeWorld))\<rparr>
   \<and> markerPath ''/p'' = ''/p/.php-version''
   \<and> fst (getPhpVersion ''/p'' config82 staleWorld) = Some ''8.2''
   \<and> files (snd (getPhpVersion ''/p'' config82 staleWorld)) ''/a/.php-version''
        = files staleWorld ''/a/.php-version''"
proof -
  note t = getPhpVersion_writes_only_on_fallback [of config74 "''/a/b/c''" treeWorld]
  from t treeWorld_known
  have "snd (getPhpVersion ''/a/b/c'' config74 treeWorld) =
        treeWorld\<lparr>trace := trace (snd (getPhpVersion ''/a/b/c'' config74 treeWorld))\<rparr>
      \<and> (\<forall>e \<in> set (drop (length (trace treeWorld))
                     (trace (snd (getPhpVersion ''/a/b/c'' config74 treeWorld)))).
            \<exists>p. e = ReadFile p)"
    by (rule mp [OF conjunct1])
  then have a: "snd (getPhpVersion ''/a/b/c'' config74 treeWorld) =
        treeWorld\<lparr>trace := trace (snd (getPhpVersion ''/a/b/c'' config74 treeWorld))\<rparr>"
    by (rule conjunct1)
  have m: "markerPath ''/p'' = ''/p/.php-version''"
    by code_simp
  note s = getPhpVersion_writes_only_on_fallback [of config82 "''/p''" staleWorld]
  have w: "WriteFile (markerPath ''/p'') ''8.2\<newline>''
      \<in> set (drop (length (trace staleWorld))
               (trace (snd (getPhpVersion ''/p'' config82 staleWorld))))"
    by code_simp
  from s have "\<forall>p d. WriteFile p d
              \<in> set (drop (length (trace staleWorld))
                      (trace (snd (getPhpVersion ''/p'' config82 staleWorld)))) \<longrightarrow>
          \<not> known config82 (fst (findPhpVersionFile ''/p'' staleWorld))
          \<and> p = markerPath ''/p''
          \<and> (\<exists>v. fst (getPhpVersion ''/p'' config82 staleWorld) = Some v
                \<and> d = v @ ''\<newline>'')"
    by (rule conjunct1 [OF conjunct2])
  with w have "\<exists>v. fst (getPhpVersion ''/p'' config82 staleWorld) = Some v
      \<and> ''8.2\<newline>'' = v @ ''\<newline>''"
    by blast
  then have b: "fst (getPhpVersion ''/p'' config82 staleWorld) = Some ''8.2''"
    by auto
  from s have "\<forall>p. p \<noteq> markerPath ''/p'' \<longrightarrow>
      files (snd (getPhpVersion ''/p'' config82 staleWorld)) p = files staleWorld p"
    by (rule conjunct2 [OF conjunct2])
  then have c: "files (snd (getPhpVersion ''/p'' config82 staleWorld)) ''/a/.php-version''
        = files staleWorld ''/a/.php-version''"
    by (simp add: m)
  from a m b c show ?thesis by (intro conjI)
qed

subsection \<open>Writing a marker file and resolving again\<close>

lemma trimLeft_length: "length (trimLeft s) \<le> length s"
proof (induction s rule: trimLeft.induct)
  case (1 s)
  show ?case
  proof (cases "find (strings_HasPrefix s) spaces")
    case None
    then show ?thesis by (simp add: trimLeft.simps [of s])
  next
    case (Some sp)
    with "1.IH" have "length (trimLeft (drop (length sp) s)) \<le> length (drop (length sp) s)"
      by simp
    with Some show ?thesis by (simp add: trimLeft.simps [of s])
  qed
qed

lemma trimRight_length: "length (trimRight s) \<le> length s"
proof (induction s rule: trimRight.induct)
  case (1 s)
  show ?case
  proof (cases "find (strings_HasSuffix s) spaces")
    case None
    then show ?thesis by (simp add: trimRight.simps [of s])
  next
    case (Some sp)
    with "1.IH" have "length (trimRight (take (length s - length sp) s))
        \<le> length (take (length s - length sp) s)"
      by simp
    with Some show ?thesis by (simp add: trimRight.simps [of s])
  qed
qed

lemma trimLeft_fixed: "trimLeft s = s \<Longrightarrow> find (strings_HasPrefix s) spaces = None"
proof (rule ccontr)
  assume f: "trimLeft s = s" and "find (strings_HasPrefix s) spaces \<noteq> None"
  then obtain sp where sp: "find (strings_HasPrefix s) spaces = Some sp" by auto
  then have "sp \<in> set spaces" "strings_HasPrefix s sp" by (auto simp: find_Some_iff)
  then have "sp \<noteq> []" "length sp \<le> length s"
    by (auto simp: spaces_nonempty strings_HasPrefix_def)
  then have "length (drop (length sp) s) < length s" by (cases sp) auto
  moreover have "length (trimLeft (drop (length sp) s)) \<le> length (drop (length sp) s)"
    by (rule trimLeft_length)
  moreover have "trimLeft s = trimLeft (drop (length sp) s)"
    using sp by (simp add: trimLeft.simps [of s])
  ultimately show False using f by simp
qed

text \<open>A string that \<open>strings_TrimSpace\<close> leaves alone is left alone by both halves.\<close>

lemma TrimSpace_fixed:
  assumes "strings_TrimSpace s = s"
  shows "trimLeft s = s" "trimRight s = s"
proof -
  have "length s = length (trimRight (trimLeft s))"
    using assms by (simp add: strings_TrimSpace_def)
  also have "\<dots> \<le> length (trimLeft s)" by (rule trimRight_length)
  finally have l: "length s \<le> length (trimLeft s)" .
  show a: "trimLeft s = s"
  proof (cases "find (strings_HasPrefix s) spaces")
    case None
    then show ?thesis by (simp add: trimLeft.simps [of s])
  next
    case (Some sp)
    then have "sp \<in> set spaces" "strings_HasPrefix s sp" by (auto simp: find_Some_iff)
    then have "sp \<noteq> []" "length sp \<le> length s"
      by (auto simp: spaces_nonempty strings_HasPrefix_def)
    then have "length (drop (length sp) s) < length s" by (cases sp) auto
    moreover have "length (trimLeft (drop (length sp) s)) \<le> length (drop (length sp) s)"
      by (rule trimLeft_length)
    moreover have "trimLeft s = trimLeft (drop (length sp) s)"
      using Some by (simp add: trimLeft.simps [of s])
    ultimately show ?thesis using l by simp
  qed
  with assms show "trimRight s = s" by (simp add: strings_TrimSpace_def)
qed

lemma space_ending_newline:
  "sp \<in> set spaces \<Longrightarrow> last sp = CHR 0x0A \<Longrightarrow> sp = [CHR 0x0A]"
  by (auto simp: spaces_def asciiSpace_def unicodeSpace_def)

lemma TrimSpace_newline:
  assumes "L \<noteq> []" "strings_TrimSpace L = L"
  shows "strings_TrimSpace (L @ ''\<newline>'') = L"
proof -
  have nl: "find (strings_HasPrefix L) spaces = None"
    using assms(2) by (intro trimLeft_fixed TrimSpace_fixed)
  have "find (strings_HasPrefix (L @ ''\<newline>'')) spaces = None"
  proof (rule ccontr)
    assume "find (strings_HasPrefix (L @ ''\<newline>'')) spaces \<noteq> None"
    then obtain sp where "find (strings_HasPrefix (L @ ''\<newline>'')) spaces = Some sp" by auto
    then have sp: "sp \<in> set spaces" "strings_HasPrefix (L @ ''\<newline>'') sp"
      by (auto simp: find_Some_iff)
    from nl sp(1) have n: "\<not> strings_HasPrefix L sp" by (auto simp: find_None_iff)
    from sp(2) have "length sp \<le> Suc (length L)" "take (length sp) (L @ ''\<newline>'') = sp"
      by (auto simp: strings_HasPrefix_def)
    with n have "sp = L @ ''\<newline>''"
      by (cases "length sp \<le> length L") (auto simp: strings_HasPrefix_def)
    with sp(1) have "L @ ''\<newline>'' = [CHR 0x0A]"
      using space_ending_newline [of sp] by simp
    with assms(1) show False by simp
  qed
  then have l: "trimLeft (L @ ''\<newline>'') = L @ ''\<newline>''"
    by (simp add: trimLeft.simps [of "L @ ''\<newline>''"])
  have "find (strings_HasSuffix (L @ ''\<newline>'')) spaces = Some ''\<newline>''"
    by (simp add: spaces_def asciiSpace_def strings_HasSuffix_def)
  then have "trimRight (L @ ''\<newline>'') = trimRight L"
    by (simp add: trimRight.simps [of "L @ ''\<newline>''"])
  also have "\<dots> = L" using assms(2) by (rule TrimSpace_fixed)
  finally show ?thesis using l by (simp add: strings_TrimSpace_def)
qed

lemma markerLabel_written:
  assumes "L \<noteq> []" "strings_TrimSpace L = L" "writable w (markerPath dir)"
  shows "markerLabel (createPhpVersionFile dir L w) dir = L"
  using assms by (simp add: createPhpVersionFile_eq markerLabel_def TrimSpace_newline)

lemma find_at_start:
  "markerLabel w dir \<noteq> [] \<Longrightarrow> findPhpVersionFile dir w =
     (markerLabel w dir, w\<lparr>trace := trace w @ [ReadFile (markerPath dir)]\<rparr>)"
  by (subst find_unfold) (simp add: Let_def)

text \<open>
  C2, as stated, fails: it holds for the labels of the configuration only. The marker
  file of \<^verbatim>\<open>/p\<close> is written with the label \<^verbatim>\<open>9.9\<close>, which the configuration does not have;
  resolving from \<^verbatim>\<open>/p\<close> returns \<^verbatim>\<open>8.2\<close> and replaces the content of the marker file.
\<close>

theorem marker_round_trip_unknown_label:
  "files (createPhpVersionFile ''/p'' ''9.9'' world0) (markerPath ''/p'') = Some ''9.9\<newline>''
   \<and> fst (getPhpVersion ''/p'' config82 (createPhpVersionFile ''/p'' ''9.9'' world0))
        = Some ''8.2''
   \<and> files (snd (getPhpVersion ''/p'' config82 (createPhpVersionFile ''/p'' ''9.9'' world0)))
        (markerPath ''/p'') = Some ''8.2\<newline>''"
  by code_simp

text \<open>
  C2, amended. Let \<open>L\<close> be a label that is not empty, has no white space around it and
  is bound to a non-empty path in the configuration, and let the write of the marker file
  of \<open>dir\<close> succeed. Then resolving from \<open>dir\<close> right after \<open>createPhpVersionFile dir L\<close>
  returns \<open>L\<close>, and all the resolution does is read the marker file of \<open>dir\<close>: the files
  are as the write left them, the marker file holding \<open>L\<close> and a newline.
\<close>

theorem marker_round_trip:
  assumes "L \<noteq> []" and "strings_TrimSpace L = L" and "index config L \<noteq> []"
    and "writable w (markerPath dir)"
  shows "fst (getPhpVersion dir config (createPhpVersionFile dir L w)) = Some L
   \<and> snd (getPhpVersion dir config (createPhpVersionFile dir L w)) =
       (createPhpVersionFile dir L w)
         \<lparr>trace := trace (createPhpVersionFile dir L w) @ [ReadFile (markerPath dir)]\<rparr>
   \<and> files (snd (getPhpVersion dir config (createPhpVersionFile dir L w))) =
       files (createPhpVersionFile dir L w)
   \<and> files (createPhpVersionFile dir L w) (markerPath dir) = Some (L @ ''\<newline>'')"
proof -
  let ?w = "createPhpVersionFile dir L w"
  have l: "markerLabel ?w dir = L"
    using assms by (intro markerLabel_written)
  with assms(1) have f: "findPhpVersionFile dir ?w =
      (L, ?w\<lparr>trace := trace ?w @ [ReadFile (markerPath dir)]\<rparr>)"
    using find_at_start [of ?w dir] by simp
  then have g: "getPhpVersion dir config ?w =
      (Some L, ?w\<lparr>trace := trace ?w @ [ReadFile (markerPath dir)]\<rparr>)"
    using assms(1,3) by (simp add: getPhpVersion_def)
  have c: "files ?w (markerPath dir) = Some (L @ ''\<newline>'')"
    using assms(4) by (simp add: createPhpVersionFile_eq)
  from g c show ?thesis by simp
qed

theorem marker_round_trip_witness:
  "''8.2'' \<noteq> [] \<and> strings_TrimSpace ''8.2'' = ''8.2'' \<and> index config82 ''8.2'' \<noteq> []
   \<and> writable world0 (markerPath ''/p'')
   \<and> fst (getPhpVersion ''/p'' config82 (createPhpVersionFile ''/p'' ''8.2'' world0))
        = Some ''8.2''
   \<and> files (snd (getPhpVersion ''/p'' config82 (createPhpVersionFile ''/p'' ''8.2'' world0)))
        = files (createPhpVersionFile ''/p'' ''8.2'' world0)"
proof -
  have h1: "''8.2'' \<noteq> []" by simp
  have h2: "strings_TrimSpace ''8.2'' = ''8.2''" by code_simp
  have h3: "index config82 ''8.2'' \<noteq> []" by code_simp
  have h4: "writable world0 (markerPath ''/p'')" by (simp add: world0_def)
  note r = marker_round_trip [OF h1 h2 h3 h4]
  from r have a: "fst (getPhpVersion ''/p'' config82 (createPhpVersionFile ''/p'' ''8.2'' world0))
        = Some ''8.2''"
    by (rule conjunct1)
  from r have b: "files (snd (getPhpVersion ''/p'' config82
          (createPhpVersionFile ''/p'' ''8.2'' world0)))
        = files (createPhpVersionFile ''/p'' ''8.2'' world0)"
    by (rule conjunct1 [OF conjunct2 [OF conjunct2]])
  from h1 h2 h3 h4 a b show ?thesis by (intro conjI)
qed

section \<open>Loading the configuration\<close>

subsection \<open>Lines, entries and what the load keeps\<close>

text \<open>
  The words of the specification. A line is ignored when it is blank or a comment. The
  entry of a line is its label and path: the two parts of the trimmed line around the first
  colon, each trimmed, when there are two parts and neither is empty. A line is malformed
  when it is not ignored and has no entry.
\<close>

definition ignored :: "string \<Rightarrow> bool" where
  "ignored text =
     (strings_TrimSpace text = [] \<or> strings_HasPrefix (strings_TrimSpace text) ''#'')"

definition entry :: "string \<Rightarrow> (string \<times> string) option" where
  "entry text =
     (let parts = strings_SplitN2 (strings_TrimSpace text) (CHR '':'')
      in if length parts = 2
            \<and> strings_TrimSpace (parts ! 0) \<noteq> [] \<and> strings_TrimSpace (parts ! 1) \<noteq> []
         then Some (strings_TrimSpace (parts ! 0), strings_TrimSpace (parts ! 1))
         else None)"

definition malformed :: "string \<Rightarrow> bool" where
  "malformed text = (\<not> ignored text \<and> entry text = None)"

definition lineError :: "nat \<Rightarrow> string \<Rightarrow> config_error" where
  "lineError n text =
     (if length (strings_SplitN2 (strings_TrimSpace text) (CHR '':'')) \<noteq> 2
      then InvalidFormat n (strings_TrimSpace text)
      else EmptyVersionOrPath n (strings_TrimSpace text))"

fun errorLine :: "config_error \<Rightarrow> nat option" where
  "errorLine (InvalidFormat n line) = Some n"
| "errorLine (EmptyVersionOrPath n line) = Some n"
| "errorLine _ = None"

lemma errorLine_lineError [simp]: "errorLine (lineError n text) = Some n"
  by (simp add: lineError_def)

lemma loadLines_step:
  "loadLines (text # rest) n config w =
     (if ignored text then loadLines rest (Suc n) config w
      else case entry text of
             None \<Rightarrow> (Inl (lineError (Suc n) text), w)
           | Some (version, path) \<Rightarrow>
               if os_IsNotExist (stat w path)
               then loadLines rest (Suc n) config
                      (fmt_Printf (MsgWarnExecutableNotFound path (Suc n)) w)
               else loadLines rest (Suc n) (AList.update version path config) w)"
  by (auto simp: Let_def ignored_def entry_def lineError_def)

declare loadLines.simps(2) [simp del]

lemma loadLines_malformed:
  assumes "i < length lines" "malformed (lines ! i)" "\<forall>j < i. \<not> malformed (lines ! j)"
  shows "fst (loadLines lines n config w) = Inl (lineError (n + i + 1) (lines ! i))"
  using assms
proof (induction lines arbitrary: i n config w)
  case Nil
  then show ?case by simp
next
  case (Cons t rest)
  show ?case
  proof (cases i)
    case 0
    with Cons.prems show ?thesis
      by (simp add: loadLines_step malformed_def)
  next
    case (Suc k)
    with Cons.prems have nm: "\<not> malformed t" by auto
    from Suc Cons.prems have k: "k < length rest" "malformed (rest ! k)"
      "\<forall>j < k. \<not> malformed (rest ! j)" by auto
    have "\<And>c v. fst (loadLines rest (Suc n) c v) = Inl (lineError (Suc n + k + 1) (rest ! k))"
      using k by (intro Cons.IH) auto
    with nm Suc show ?thesis
      by (auto simp: loadLines_step malformed_def split: option.splits)
  qed
qed

lemma first_malformed:
  assumes "\<exists>text \<in> set lines. malformed text"
  shows "\<exists>i < length lines. malformed (lines ! i) \<and> (\<forall>j < i. \<not> malformed (lines ! j))"
proof -
  let ?P = "\<lambda>i. i < length lines \<and> malformed (lines ! i)"
  from assms have "\<exists>i. ?P i" by (auto simp: in_set_conv_nth)
  then have "?P (LEAST i. ?P i)" by (rule LeastI_ex)
  moreover have "\<forall>j < (LEAST i. ?P i). \<not> malformed (lines ! j)"
    using not_less_Least [of _ ?P] by (metis (lifting) calculation order_less_trans)
  ultimately show ?thesis by blast
qed

text \<open>
  The well-formed lines of a source with their line numbers, those whose path exists
  (\<^verbatim>\<open>os.Stat\<close> does not report that it does not exist) and those whose path does not, the
  mapping in which a later line overrides an earlier one with the same label, and the
  warnings printed for the lines that are skipped.
\<close>

fun parsedFrom :: "nat \<Rightarrow> string list \<Rightarrow> (nat \<times> string \<times> string) list" where
  "parsedFrom n [] = []"
| "parsedFrom n (t # ts) =
     (case (if ignored t then None else entry t) of
        None \<Rightarrow> []
      | Some (version, path) \<Rightarrow> [(Suc n, version, path)]) @ parsedFrom (Suc n) ts"

definition entries :: "string list \<Rightarrow> (nat \<times> string \<times> string) list" where
  "entries lines = parsedFrom 0 lines"

definition present :: "world \<Rightarrow> (nat \<times> string \<times> string) list \<Rightarrow> (nat \<times> string \<times> string) list" where
  "present w es = filter (\<lambda>(n, version, path). \<not> os_IsNotExist (stat w path)) es"

definition absent :: "world \<Rightarrow> (nat \<times> string \<times> string) list \<Rightarrow> (nat \<times> string \<times> string) list" where
  "absent w es = filter (\<lambda>(n, version, path). os_IsNotExist (stat w path)) es"

definition lastWins :: "(nat \<times> string \<times> string) list \<Rightarrow> string \<rightharpoonup> string" where
  "lastWins es = map_of (rev (map (\<lambda>(n, version, path). (version, path)) es))"

definition warnings :: "(nat \<times> string \<times> string) list \<Rightarrow> event list" where
  "warnings es = map (\<lambda>(n, version, path). Print (MsgWarnExecutableNotFound path n)) es"

definition assignAll :: "Config \<Rightarrow> (nat \<times> string \<times> string) list \<Rightarrow> Config" where
  "assignAll config es = foldl (\<lambda>c (n, version, path). AList.update version path c) config es"

lemma present_Printf [simp]: "present (fmt_Printf m w) es = present w es"
  by (simp add: present_def fmt_Printf_def)

lemma absent_Printf [simp]: "absent (fmt_Printf m w) es = absent w es"
  by (simp add: absent_def fmt_Printf_def)

lemma loadLines_wellformed:
  assumes "\<forall>t \<in> set lines. \<not> malformed t"
  shows "loadLines lines n config w =
     (Inr (assignAll config (present w (parsedFrom n lines))),
      w\<lparr>trace := trace w @ warnings (absent w (parsedFrom n lines))\<rparr>)"
  using assms
proof (induction lines arbitrary: n config w)
  case Nil
  then show ?case by (simp add: assignAll_def present_def absent_def warnings_def)
next
  case (Cons t rest)
  then have r: "\<And>n config w. loadLines rest n config w =
     (Inr (assignAll config (present w (parsedFrom n rest))),
      w\<lparr>trace := trace w @ warnings (absent w (parsedFrom n rest))\<rparr>)"
    by simp
  show ?case
  proof (cases "ignored t")
    case True
    then show ?thesis by (simp add: loadLines_step r)
  next
    case False
    with Cons.prems obtain version path where e: "entry t = Some (version, path)"
      by (auto simp: malformed_def)
    show ?thesis
    proof (cases "os_IsNotExist (stat w path)")
      case True
      with False e show ?thesis
        by (simp add: loadLines_step r)
           (simp add: present_def absent_def warnings_def fmt_Printf_def)
    next
      case ex: False
      with False e show ?thesis
        by (simp add: loadLines_step r)
           (simp add: present_def absent_def warnings_def assignAll_def)
    qed
  qed
qed

lemma map_of_assignAll: "map_of (assignAll config es) = map_of config ++ lastWins es"
proof (induction es arbitrary: config)
  case Nil
  then show ?case by (simp add: assignAll_def lastWins_def)
next
  case (Cons e es)
  obtain n version path where e: "e = (n, version, path)" by (cases e) auto
  have "map_of (assignAll config (e # es)) = map_of (assignAll (AList.update version path config) es)"
    by (simp add: assignAll_def e)
  also have "\<dots> = map_of (AList.update version path config) ++ lastWins es"
    by (rule Cons.IH)
  also have "\<dots> = map_of config ++ lastWins (e # es)"
    by (auto simp: lastWins_def e update_conv' fun_eq_iff map_add_def split: option.splits)
  finally show ?case .
qed

lemma update_nonempty: "AList.update k v al \<noteq> []"
  by (cases al) auto

lemma assignAll_empty: "assignAll config es = [] \<longleftrightarrow> config = [] \<and> es = []"
proof (induction es arbitrary: config)
  case Nil
  then show ?case by (simp add: assignAll_def)
next
  case (Cons e es)
  obtain n version path where e: "e = (n, version, path)" by (cases e) auto
  have "assignAll config (e # es) = assignAll (AList.update version path config) es"
    by (simp add: assignAll_def e)
  then show ?case using Cons.IH [of "AList.update version path config"]
    by (simp add: update_nonempty)
qed

definition configLines :: "string list" where
  "configLines = [''# php versions'', '''', ''8.2: /opt/php82'', ''  7.4 : /opt/php74  '',
     ''8.2: /usr/bin/php8.2'']"

definition runWorld :: world where
  "runWorld = world0\<lparr>
     stat := (\<lambda>p. if p \<in> set [''/etc/php-runner.yaml'', ''/opt/php82'', ''/usr/bin/php8.2'']
                  then None else Some ErrNotExist),
     scan := (\<lambda>p. if p = ''/etc/php-runner.yaml'' then Some (configLines, False) else None),
     getwd := Some ''/p'',
     args := [''--version''],
     child := (\<lambda>p a. if p = ''/usr/bin/php8.2'' then Exited 3 else NotStarted)\<rparr>"

definition badWorld :: world where
  "badWorld = world0\<lparr>
     scan := (\<lambda>p. Some ([''8.2: /opt/php82'', ''oops'', '': also bad''], False))\<rparr>"

definition missingWorld :: world where
  "missingWorld = world0\<lparr>
     scan := (\<lambda>p. Some ([''# php versions'', ''8.2: /opt/php82''], False))\<rparr>"

text \<open>
  C4. When the source holds a malformed line, \<open>loadConfig\<close> fails: it returns an error
  and no mapping, and the error reports the line number, counted from 1, of a malformed
  line of the source, namely the first one, where the loop returns.
\<close>

theorem loadConfig_malformed:
  assumes "scan w configPath = Some (lines, scanErr)"
    and "\<exists>text \<in> set lines. malformed text"
  shows "\<exists>i < length lines. malformed (lines ! i) \<and> (\<forall>j < i. \<not> malformed (lines ! j))
     \<and> (\<exists>err. fst (loadConfig configPath w) = Inl err \<and> errorLine err = Some (i + 1))"
proof -
  from assms(2) obtain i where i: "i < length lines" "malformed (lines ! i)"
    "\<forall>j < i. \<not> malformed (lines ! j)"
    using first_malformed by blast
  then have "fst (loadLines lines 0 [] w) = Inl (lineError (0 + i + 1) (lines ! i))"
    by (rule loadLines_malformed)
  then obtain w1 where "loadLines lines 0 [] w = (Inl (lineError (i + 1) (lines ! i)), w1)"
    by (cases "loadLines lines 0 [] w") auto
  then have "fst (loadConfig configPath w) = Inl (lineError (i + 1) (lines ! i))"
    using assms(1) by (simp add: loadConfig_def)
  with i show ?thesis by auto
qed

theorem loadConfig_malformed_witness:
  "scan badWorld ''/etc/php-runner.yaml'' = Some ([''8.2: /opt/php82'', ''oops'', '': also bad''], False)
   \<and> malformed ''oops''
   \<and> (\<exists>err. fst (loadConfig ''/etc/php-runner.yaml'' badWorld) = Inl err
          \<and> errorLine err = Some 2)"
proof -
  let ?lines = "[''8.2: /opt/php82'', ''oops'', '': also bad'']"
  have s: "scan badWorld ''/etc/php-runner.yaml'' = Some (?lines, False)"
    by (simp add: badWorld_def)
  have m: "\<not> malformed ''8.2: /opt/php82''" "malformed ''oops''"
    by code_simp+
  then have "\<exists>t \<in> set ?lines. malformed t" by simp
  with s have "\<exists>i < length ?lines. malformed (?lines ! i) \<and> (\<forall>j < i. \<not> malformed (?lines ! j))
     \<and> (\<exists>err. fst (loadConfig ''/etc/php-runner.yaml'' badWorld) = Inl err
           \<and> errorLine err = Some (i + 1))"
    by (rule loadConfig_malformed)
  then obtain i where i: "i < 3" "malformed (?lines ! i)" "\<forall>j < i. \<not> malformed (?lines ! j)"
    "\<exists>err. fst (loadConfig ''/etc/php-runner.yaml'' badWorld) = Inl err
           \<and> errorLine err = Some (i + 1)"
    by auto
  from i(1) have "i = 0 \<or> i = 1 \<or> i = 2" by auto
  then have "i = 1"
  proof (elim disjE)
    assume "i = 0"
    with i(2) m(1) show ?thesis by simp
  next
    assume "i = 1"
    then show ?thesis .
  next
    assume "i = 2"
    with i(3) have "\<forall>j < 2. \<not> malformed (?lines ! j)" by simp
    then have "(1::nat) < 2 \<longrightarrow> \<not> malformed (?lines ! 1)" by (rule spec)
    with m(2) show ?thesis by simp
  qed
  with i(4) have "\<exists>err. fst (loadConfig ''/etc/php-runner.yaml'' badWorld) = Inl err
          \<and> errorLine err = Some 2"
    by (simp add: numeral_2_eq_2)
  with s m(2) show ?thesis by (intro conjI)
qed

text \<open>
  C5, as stated, fails. Every line of the source below is a comment or a well-formed
  entry, the path of the only entry does not exist, and the load fails: the skipped line
  leaves the mapping empty, which \<open>loadConfig\<close> reports as an error.
\<close>

theorem loadConfig_all_missing:
  "\<not> malformed ''# php versions'' \<and> \<not> malformed ''8.2: /opt/php82''
   \<and> scan missingWorld ''/etc/php-runner.yaml''
        = Some ([''# php versions'', ''8.2: /opt/php82''], False)
   \<and> entry ''8.2: /opt/php82'' = Some (''8.2'', ''/opt/php82'')
   \<and> os_IsNotExist (stat missingWorld ''/opt/php82'')
   \<and> fst (loadConfig ''/etc/php-runner.yaml'' missingWorld) = Inl NoValidVersions"
  by code_simp

lemma lastWins_sound:
  assumes "lastWins es label = Some path"
  shows "\<exists>n. (n, label, path) \<in> set es"
proof -
  from assms have "(label, path) \<in> set (rev (map (\<lambda>(n, version, path). (version, path)) es))"
    unfolding lastWins_def by (rule map_of_SomeD)
  then show ?thesis by auto
qed

lemma present_member:
  "(n, label, path) \<in> set (present w es) \<longleftrightarrow>
     (n, label, path) \<in> set es \<and> \<not> os_IsNotExist (stat w path)"
  by (auto simp: present_def)

lemma parsedFrom_numbers:
  "sorted_wrt (<) (map fst (parsedFrom n lines)) \<and> (\<forall>x \<in> set (parsedFrom n lines). n < fst x)"
proof (induction lines arbitrary: n)
  case Nil
  then show ?case by simp
next
  case (Cons t ts)
  have s: "sorted_wrt (<) (map fst (parsedFrom (Suc n) ts))"
    and g: "\<forall>x \<in> set (parsedFrom (Suc n) ts). Suc n < fst x"
    using Cons.IH [of "Suc n"] by simp_all
  from g have g': "\<forall>x \<in> set (parsedFrom (Suc n) ts). n < fst x" by auto
  show ?case
    using s g g' by (auto split: option.splits)
qed

lemma present_sorted: "sorted_wrt (<) (map fst (present w (entries lines)))"
proof -
  have "sorted_wrt (<) (map fst (entries lines))"
    using parsedFrom_numbers [of 0 lines] by (simp add: entries_def)
  then show ?thesis
    unfolding present_def by (simp add: sorted_wrt_map sorted_wrt_filter)
qed

lemma lastWins_last:
  assumes "sorted_wrt (<) (map fst es)" and "(n, label, path) \<in> set es"
    and "\<forall>n' path'. (n', label, path') \<in> set es \<longrightarrow> n' \<le> n"
  shows "lastWins es label = Some path"
proof -
  from assms(2) obtain xs ys where es: "es = xs @ (n, label, path) # ys"
    by (auto dest: split_list)
  have "\<forall>y \<in> set ys. n < fst y"
    using assms(1) unfolding es by (auto simp: sorted_wrt_append)
  with assms(3) have "\<forall>y \<in> set ys. fst (snd y) \<noteq> label"
    unfolding es by (metis in_set_conv_decomp leD list.set_intros(2) prod.collapse set_append Un_iff)
  then have "label \<notin> fst ` set (rev (map (\<lambda>(n, version, path). (version, path)) ys))"
    by (auto simp: image_iff)
  then have "map_of (rev (map (\<lambda>(n, version, path). (version, path)) ys)) label = None"
    by (simp add: map_of_eq_None_iff)
  then show ?thesis
    by (simp add: lastWins_def es map_add_def)
qed


lemma lastWins_iff:
  assumes "sorted_wrt (<) (map fst es)"
  shows "lastWins es label = Some path \<longleftrightarrow>
     (\<exists>n. (n, label, path) \<in> set es
        \<and> (\<forall>n' path'. (n', label, path') \<in> set es \<longrightarrow> n' \<le> n))"
proof
  assume l: "lastWins es label = Some path"
  then obtain n0 where n0: "(n0, label, path) \<in> set es"
    using lastWins_sound by blast
  let ?N = "{n. \<exists>p. (n, label, p) \<in> set es}"
  have "?N \<subseteq> fst ` set es" by force
  then have fin: "finite ?N" by (rule finite_subset) simp
  from n0 have ne: "?N \<noteq> {}" by blast
  from fin ne have "Max ?N \<in> ?N" by (rule Max_in)
  then obtain p where p: "(Max ?N, label, p) \<in> set es" by blast
  have mx: "\<forall>n' path'. (n', label, path') \<in> set es \<longrightarrow> n' \<le> Max ?N"
    using fin by (auto intro: Max_ge)
  with assms p have "lastWins es label = Some p" by (rule lastWins_last)
  with l have "p = path" by simp
  with p mx show "\<exists>n. (n, label, path) \<in> set es
        \<and> (\<forall>n' path'. (n', label, path') \<in> set es \<longrightarrow> n' \<le> n)"
    by blast
next
  assume "\<exists>n. (n, label, path) \<in> set es
        \<and> (\<forall>n' path'. (n', label, path') \<in> set es \<longrightarrow> n' \<le> n)"
  then obtain n where "(n, label, path) \<in> set es"
    "\<forall>n' path'. (n', label, path') \<in> set es \<longrightarrow> n' \<le> n"
    by blast
  with assms show "lastWins es label = Some path" by (rule lastWins_last)
qed

text \<open>
  C5, amended. Let every line of the source be ignored or well-formed, and let the
  source be read without error. Then the load never fails at a line. It fails, with the
  error that no valid version was found, exactly when no line has a path that exists.
  Otherwise it yields the entry of a label and a path if and only if some line holds that
  label and path, the path exists, and no later line with the same label has a path that
  exists: a later line overrides an earlier one. A line whose path does not exist is
  skipped with a warning that names the path and the line number, and nothing else is
  printed.
\<close>

theorem loadConfig_wellformed:
  assumes "scan w configPath = Some (lines, False)"
    and "\<forall>t \<in> set lines. \<not> malformed t"
  shows "(present w (entries lines) = [] \<longrightarrow>
            fst (loadConfig configPath w) = Inl NoValidVersions)
     \<and> (present w (entries lines) \<noteq> [] \<longrightarrow>
            (\<exists>config. fst (loadConfig configPath w) = Inr config
               \<and> map_of config = lastWins (present w (entries lines))
               \<and> (\<forall>label path. map_of config label = Some path \<longleftrightarrow>
                     (\<exists>n. (n, label, path) \<in> set (entries lines)
                        \<and> \<not> os_IsNotExist (stat w path)
                        \<and> (\<forall>n' path'. (n', label, path') \<in> set (entries lines)
                              \<and> \<not> os_IsNotExist (stat w path') \<longrightarrow> n' \<le> n)))))
     \<and> snd (loadConfig configPath w) =
         w\<lparr>trace := trace w @ warnings (absent w (entries lines))\<rparr>"
proof -
  let ?es = "present w (entries lines)"
  have "loadLines lines 0 [] w =
     (Inr (assignAll [] ?es), w\<lparr>trace := trace w @ warnings (absent w (entries lines))\<rparr>)"
    unfolding entries_def using assms(2) by (rule loadLines_wellformed)
  moreover have "map_of (assignAll [] ?es) = lastWins ?es"
    using map_of_assignAll [of "[]" ?es] by simp
  moreover have "\<forall>label path. lastWins ?es label = Some path \<longleftrightarrow>
      (\<exists>n. (n, label, path) \<in> set (entries lines)
         \<and> \<not> os_IsNotExist (stat w path)
         \<and> (\<forall>n' path'. (n', label, path') \<in> set (entries lines)
               \<and> \<not> os_IsNotExist (stat w path') \<longrightarrow> n' \<le> n))"
    using lastWins_iff [OF present_sorted, of w lines] by (simp add: present_member)
  ultimately show ?thesis
    using assms(1) by (simp add: loadConfig_def assignAll_empty)
qed

theorem loadConfig_wellformed_witness:
  "scan runWorld ''/etc/php-runner.yaml'' = Some (configLines, False)
   \<and> list_all (\<lambda>t. \<not> malformed t) configLines
   \<and> (\<exists>config. fst (loadConfig ''/etc/php-runner.yaml'' runWorld) = Inr config
          \<and> map_of config ''8.2'' = Some ''/usr/bin/php8.2''
          \<and> map_of config ''7.4'' = None)
   \<and> trace (snd (loadConfig ''/etc/php-runner.yaml'' runWorld)) =
        [Print (MsgWarnExecutableNotFound ''/opt/php74'' 4)]"
proof -
  have s: "scan runWorld ''/etc/php-runner.yaml'' = Some (configLines, False)"
    by (simp add: runWorld_def)
  have a: "list_all (\<lambda>t. \<not> malformed t) configLines"
    by code_simp
  then have a': "\<forall>t \<in> set configLines. \<not> malformed t"
    by (simp add: list_all_iff)
  note r = loadConfig_wellformed [OF s a']
  have p: "present runWorld (entries configLines)
      = [(3, ''8.2'', ''/opt/php82''), (5, ''8.2'', ''/usr/bin/php8.2'')]"
    by code_simp
  have q: "absent runWorld (entries configLines) = [(4, ''7.4'', ''/opt/php74'')]"
    by code_simp
  have t: "trace runWorld = []"
    by (simp add: runWorld_def world0_def)
  from r p have "\<exists>config. fst (loadConfig ''/etc/php-runner.yaml'' runWorld) = Inr config
      \<and> map_of config = lastWins [(3, ''8.2'', ''/opt/php82''), (5, ''8.2'', ''/usr/bin/php8.2'')]"
    by auto
  then have b: "\<exists>config. fst (loadConfig ''/etc/php-runner.yaml'' runWorld) = Inr config
          \<and> map_of config ''8.2'' = Some ''/usr/bin/php8.2''
          \<and> map_of config ''7.4'' = None"
    by (auto simp: lastWins_def)
  from r have "snd (loadConfig ''/etc/php-runner.yaml'' runWorld) =
         runWorld\<lparr>trace := trace runWorld @ warnings (absent runWorld (entries configLines))\<rparr>"
    by (rule conjunct2 [OF conjunct2])
  then have c: "trace (snd (loadConfig ''/etc/php-runner.yaml'' runWorld)) =
        [Print (MsgWarnExecutableNotFound ''/opt/php74'' 4)]"
    by (simp add: q t warnings_def)
  from s a b c show ?thesis by (intro conjI)
qed

section \<open>The whole program\<close>

subsection \<open>Only non-empty paths are configured\<close>

lemma set_update_subset: "set (AList.update k v al) \<subseteq> insert (k, v) (set al)"
  by (induction al) auto

lemma entry_nonempty: "entry t = Some (version, path) \<Longrightarrow> version \<noteq> [] \<and> path \<noteq> []"
  by (auto simp: entry_def Let_def split: if_splits)

lemma loadLines_values:
  assumes "\<forall>(k, v) \<in> set config. v \<noteq> []" "fst (loadLines lines n config w) = Inr c"
  shows "\<forall>(k, v) \<in> set c. v \<noteq> []"
  using assms
proof (induction lines arbitrary: n config w)
  case Nil
  then show ?case by simp
next
  case (Cons t rest)
  show ?case
  proof (cases "ignored t")
    case True
    with Cons.prems have "fst (loadLines rest (Suc n) config w) = Inr c"
      by (simp add: loadLines_step)
    with Cons.prems(1) show ?thesis by (rule Cons.IH)
  next
    case False
    with Cons.prems(2) obtain version path where e: "entry t = Some (version, path)"
      by (cases "entry t") (auto simp: loadLines_step)
    then have p: "path \<noteq> []" by (simp add: entry_nonempty)
    show ?thesis
    proof (cases "os_IsNotExist (stat w path)")
      case True
      with False e Cons.prems have "fst (loadLines rest (Suc n) config
          (fmt_Printf (MsgWarnExecutableNotFound path (Suc n)) w)) = Inr c"
        by (simp add: loadLines_step)
      with Cons.prems(1) show ?thesis by (rule Cons.IH)
    next
      case ex: False
      with False e Cons.prems
      have "fst (loadLines rest (Suc n) (AList.update version path config) w) = Inr c"
        by (simp add: loadLines_step)
      moreover have "\<forall>(k, v) \<in> set (AList.update version path config). v \<noteq> []"
        using Cons.prems(1) p set_update_subset [of version path config] by auto
      ultimately show ?thesis by (rule Cons.IH [rotated])
    qed
  qed
qed

lemma loadConfig_values:
  assumes "fst (loadConfig configPath w) = Inr config"
  shows "\<forall>(k, v) \<in> set config. v \<noteq> []"
proof -
  from assms obtain lines scanErr where s: "scan w configPath = Some (lines, scanErr)"
    by (cases "scan w configPath") (auto simp: loadConfig_def)
  obtain r w1 where l: "loadLines lines 0 [] w = (r, w1)"
    by (cases "loadLines lines 0 [] w") auto
  with assms s have "r = Inr config"
    by (cases r) (auto simp: loadConfig_def split: if_splits)
  with l have f: "fst (loadLines lines 0 [] w) = Inr config" by simp
  have e: "\<forall>(k, v) \<in> set ([] :: Config). v \<noteq> []" by simp
  from e f show ?thesis by (rule loadLines_values)
qed

lemma known_bound:
  "known config v \<Longrightarrow> \<exists>phpPath. map_of config v = Some phpPath \<and> phpPath \<noteq> []"
  by (auto simp: known_def index_def split: option.splits)

lemma index_bound:
  "index config v \<noteq> [] \<Longrightarrow> \<exists>phpPath. map_of config v = Some phpPath \<and> phpPath \<noteq> []"
  by (auto simp: index_def split: option.splits)

lemma getPhpVersion_bound:
  assumes "\<forall>(k, v) \<in> set config. v \<noteq> []"
    and "fst (getPhpVersion cwd config w) = Some version"
  shows "\<exists>phpPath. map_of config version = Some phpPath \<and> phpPath \<noteq> []"
proof (cases "known config (fst (findPhpVersionFile cwd w))")
  case True
  with assms(2) show ?thesis by (auto simp: getPhpVersion_eq Let_def known_bound)
next
  case m: False
  show ?thesis
  proof (cases "known config (ambientLabel w)")
    case True
    with m assms(2) show ?thesis by (auto simp: getPhpVersion_eq Let_def known_bound)
  next
    case a: False
    show ?thesis
    proof (cases "index config defaultVersion \<noteq> []")
      case True
      with m a assms(2) show ?thesis by (auto simp: getPhpVersion_eq Let_def index_bound)
    next
      case False
      with m a assms(2) have "rangeFirst config (rangeSeed w) = Some version"
        by (auto simp: getPhpVersion_eq Let_def split: option.splits)
      then have "version \<in> fst ` set config" by (rule rangeFirst_key)
      then obtain phpPath where "map_of config version = Some phpPath"
        by (metis domD dom_map_of_conv_image_fst)
      moreover from this have "(version, phpPath) \<in> set config" by (rule map_of_SomeD)
      with assms(1) have "phpPath \<noteq> []" by auto
      ultimately show ?thesis by simp
    qed
  qed
qed

subsection \<open>What each step adds to the trace\<close>

lemma loadLines_frame:
  "\<exists>ms. snd (loadLines lines n config w) = w\<lparr>trace := trace w @ map Print ms\<rparr>
     \<and> (\<forall>m \<in> set ms. \<exists>p k. m = MsgWarnExecutableNotFound p k)"
proof (induction lines arbitrary: n config w)
  case Nil
  have "snd (loadLines [] n config w) = w\<lparr>trace := trace w @ map Print []\<rparr>" by simp
  then show ?case by (intro exI [of _ "[]"]) simp
next
  case (Cons t rest)
  show ?case
  proof (cases "ignored t")
    case True
    then show ?thesis using Cons.IH [of "Suc n" config w] by (simp add: loadLines_step)
  next
    case ni: False
    show ?thesis
    proof (cases "entry t")
      case None
      with ni have "snd (loadLines (t # rest) n config w) = w\<lparr>trace := trace w @ map Print []\<rparr>"
        by (simp add: loadLines_step)
      then show ?thesis by (intro exI [of _ "[]"]) simp
    next
      case (Some e)
      obtain version path where e: "e = (version, path)" by (cases e) auto
      show ?thesis
      proof (cases "os_IsNotExist (stat w path)")
        case True
        let ?m = "MsgWarnExecutableNotFound path (Suc n)"
        from Cons.IH [of "Suc n" config "fmt_Printf ?m w"]
        obtain ms where ms: "snd (loadLines rest (Suc n) config (fmt_Printf ?m w)) =
            (fmt_Printf ?m w)\<lparr>trace := trace (fmt_Printf ?m w) @ map Print ms\<rparr>"
          "\<forall>m \<in> set ms. \<exists>p k. m = MsgWarnExecutableNotFound p k"
          by blast
        have "snd (loadLines (t # rest) n config w) =
            w\<lparr>trace := trace w @ map Print (?m # ms)\<rparr>"
          using ni Some e True ms(1) by (simp add: loadLines_step fmt_Printf_def)
        moreover have "\<forall>m \<in> set (?m # ms). \<exists>p k. m = MsgWarnExecutableNotFound p k"
          using ms(2) by simp
        ultimately show ?thesis by blast
      next
        case False
        with ni Some e show ?thesis
          using Cons.IH [of "Suc n" "AList.update version path config" w]
          by (simp add: loadLines_step)
      qed
    qed
  qed
qed

lemma loadConfig_frame:
  "\<exists>ms. snd (loadConfig configPath w) = w\<lparr>trace := trace w @ map Print ms\<rparr>
     \<and> (\<forall>m \<in> set ms. \<exists>p k. m = MsgWarnExecutableNotFound p k)"
proof (cases "scan w configPath")
  case None
  then have "snd (loadConfig configPath w) = w\<lparr>trace := trace w @ map Print []\<rparr>"
    by (simp add: loadConfig_def)
  then show ?thesis by (intro exI [of _ "[]"]) simp
next
  case (Some s)
  obtain lines scanErr where s: "s = (lines, scanErr)" by (cases s) auto
  obtain r w1 where l: "loadLines lines 0 [] w = (r, w1)"
    by (cases "loadLines lines 0 [] w") auto
  have "snd (loadConfig configPath w) = w1"
    using Some s l by (cases r) (simp_all add: loadConfig_def)
  moreover have "w1 = snd (loadLines lines 0 [] w)" using l by simp
  ultimately show ?thesis using loadLines_frame [of lines 0 "[]" w] by simp
qed

text \<open>What \<open>getPhpVersion\<close> may add to the trace.\<close>

definition resolutionEvent :: "event \<Rightarrow> bool" where
  "resolutionEvent e =
     (case e of
        ReadFile p \<Rightarrow> True
      | WriteFile p d \<Rightarrow> True
      | ExecPhpVersion \<Rightarrow> True
      | RunChild p a \<Rightarrow> False
      | Print m \<Rightarrow> (case m of
                      MsgNoValidVersion \<Rightarrow> True
                    | MsgWarnCouldNotCreate p \<Rightarrow> True
                    | MsgCreated p v \<Rightarrow> True
                    | _ \<Rightarrow> False))"

lemma getPhpVersion_frame:
  "child (snd (getPhpVersion cwd config w)) = child w
   \<and> args (snd (getPhpVersion cwd config w)) = args w
   \<and> (\<exists>es. trace (snd (getPhpVersion cwd config w)) = trace w @ es
         \<and> (\<forall>e \<in> set es. resolutionEvent e))"
proof (cases rule: getPhpVersion_cases [of config cwd w])
  case marker
  then show ?thesis by (auto simp: markerReads_def resolutionEvent_def)
next
  case (fallback v)
  then show ?thesis
    by (auto simp: createPhpVersionFile_eq markerReads_def resolutionEvent_def)
next
  case none
  then show ?thesis by (auto simp: markerReads_def resolutionEvent_def)
qed

subsection \<open>The paths through main\<close>

lemma main_cases:
  obtains
    (findError) configPath err where "findConfigFile w = (configPath, Some err)"
      "main w = (1, fmt_Printf (MsgErrorFindingConfig err) w)"
  | (loadError) configPath err w1 where "findConfigFile w = (configPath, None)"
      "loadConfig configPath w = (Inl err, w1)"
      "main w = (1, fmt_Printf (MsgErrorLoadingConfig configPath err) w1)"
  | (cwdError) configPath config w1 where "findConfigFile w = (configPath, None)"
      "loadConfig configPath w = (Inr config, w1)" "getwd w1 = None"
      "main w = (1, fmt_Printf MsgErrorCurrentDir w1)"
  | (noVersion) configPath config w1 cwd w2 where "findConfigFile w = (configPath, None)"
      "loadConfig configPath w = (Inr config, w1)" "getwd w1 = Some cwd"
      "getPhpVersion cwd config w1 = (None, w2)"
      "main w = (1, w2)"
  | (notInConfig) configPath config w1 cwd version w2 where
      "findConfigFile w = (configPath, None)"
      "loadConfig configPath w = (Inr config, w1)" "getwd w1 = Some cwd"
      "getPhpVersion cwd config w1 = (Some version, w2)" "map_of config version = None"
      "main w = (1, fmt_Printf (MsgVersionNotInConfig version) w2)"
  | (notFound) configPath config w1 cwd version w2 phpPath where
      "findConfigFile w = (configPath, None)"
      "loadConfig configPath w = (Inr config, w1)" "getwd w1 = Some cwd"
      "getPhpVersion cwd config w1 = (Some version, w2)"
      "map_of config version = Some phpPath" "os_IsNotExist (stat w2 phpPath)"
      "main w = (1, fmt_Printf (MsgExecutableNotFound phpPath) w2)"
  | (run) configPath config w1 cwd version w2 phpPath where
      "findConfigFile w = (configPath, None)"
      "loadConfig configPath w = (Inr config, w1)" "getwd w1 = Some cwd"
      "getPhpVersion cwd config w1 = (Some version, w2)"
      "map_of config version = Some phpPath" "\<not> os_IsNotExist (stat w2 phpPath)"
      "main w =
        (case cmd_Run (child w2 phpPath (args w2)) of
           None \<Rightarrow> (0, w2\<lparr>trace := trace w2 @ [RunChild phpPath (args w2)]\<rparr>)
         | Some (ExitError (Some status)) \<Rightarrow>
             (status, w2\<lparr>trace := trace w2 @ [RunChild phpPath (args w2)]\<rparr>)
         | Some _ \<Rightarrow>
             (1, fmt_Printf MsgErrorExecuting
                   (w2\<lparr>trace := trace w2 @ [RunChild phpPath (args w2)]\<rparr>)))"
proof -
  obtain configPath ferr where f: "findConfigFile w = (configPath, ferr)"
    by (cases "findConfigFile w") auto
  show ?thesis
  proof (cases ferr)
    case (Some err)
    with f show ?thesis by (intro findError [of configPath err]) (simp_all add: main_def)
  next
    case None
    note f = f [unfolded None]
    obtain r w1 where l: "loadConfig configPath w = (r, w1)"
      by (cases "loadConfig configPath w") auto
    show ?thesis
    proof (cases r)
      case (Inl err)
      with f l show ?thesis
        by (intro loadError [of configPath err w1]) (simp_all add: main_def)
    next
      case (Inr config)
      note l = l [unfolded Inr]
      show ?thesis
      proof (cases "getwd w1")
        case None
        with f l show ?thesis
          by (intro cwdError [of configPath config w1]) (simp_all add: main_def)
      next
        case (Some cwd)
        obtain v w2 where g: "getPhpVersion cwd config w1 = (v, w2)"
          by (cases "getPhpVersion cwd config w1") auto
        show ?thesis
        proof (cases v)
          case None
          with f l Some g show ?thesis
            by (intro noVersion [of configPath config w1 cwd w2]) (simp_all add: main_def)
        next
          case (Some version)
          note g = g [unfolded Some]
          show ?thesis
          proof (cases "map_of config version")
            case None
            with f l \<open>getwd w1 = Some cwd\<close> g show ?thesis
              by (intro notInConfig [of configPath config w1 cwd version w2])
                 (simp_all add: main_def)
          next
            case (Some phpPath)
            show ?thesis
            proof (cases "os_IsNotExist (stat w2 phpPath)")
              case True
              with f l \<open>getwd w1 = Some cwd\<close> g Some show ?thesis
                by (intro notFound [of configPath config w1 cwd version w2 phpPath])
                   (simp_all add: main_def)
            next
              case False
              with f l \<open>getwd w1 = Some cwd\<close> g Some show ?thesis
                by (intro run [of configPath config w1 cwd version w2 phpPath])
                   (simp_all add: main_def Let_def)
            qed
          qed
        qed
      qed
    qed
  qed
qed

text \<open>
  The events that happen before the child is run, and the exit code that \<open>main\<close> ends
  with once it has run the child.
\<close>

definition preLaunch :: "event \<Rightarrow> bool" where
  "preLaunch e = ((\<forall>p a. e \<noteq> RunChild p a) \<and> (\<forall>v. e \<noteq> Print (MsgVersionNotInConfig v)))"

definition exitCodeFor :: "child_outcome \<Rightarrow> int" where
  "exitCodeFor outcome =
     (case cmd_Run outcome of
        None \<Rightarrow> 0
      | Some (ExitError (Some status)) \<Rightarrow> status
      | Some _ \<Rightarrow> 1)"

lemma resolutionEvent_preLaunch: "resolutionEvent e \<Longrightarrow> preLaunch e"
  by (auto simp: resolutionEvent_def preLaunch_def)

lemma loadConfig_preLaunch:
  obtains es where "snd (loadConfig configPath w) = w\<lparr>trace := trace w @ es\<rparr>"
    "\<forall>e \<in> set es. preLaunch e"
proof -
  from loadConfig_frame [of configPath w] obtain ms where
    ms: "snd (loadConfig configPath w) = w\<lparr>trace := trace w @ map Print ms\<rparr>"
      "\<forall>m \<in> set ms. \<exists>p k. m = MsgWarnExecutableNotFound p k"
    by blast
  from ms(2) have "\<forall>e \<in> set (map Print ms). preLaunch e"
    by (auto simp: preLaunch_def)
  with ms(1) show ?thesis by (rule that)
qed

lemma getPhpVersion_preLaunch:
  obtains es where "trace (snd (getPhpVersion cwd config w)) = trace w @ es"
    "\<forall>e \<in> set es. preLaunch e"
  using getPhpVersion_frame [of cwd config w] resolutionEvent_preLaunch by blast

lemma main_shape:
  "(fst (main w) = 1
      \<and> (\<exists>es. trace (snd (main w)) = trace w @ es \<and> (\<forall>e \<in> set es. preLaunch e)))
   \<or> (\<exists>phpPath es rest.
         trace (snd (main w)) = trace w @ es @ RunChild phpPath (args w) # rest
         \<and> (\<forall>e \<in> set es. preLaunch e) \<and> (\<forall>e \<in> set rest. preLaunch e)
         \<and> fst (main w) = exitCodeFor (child w phpPath (args w)))"
proof (cases rule: main_cases [of w])
  case (findError configPath err)
  then have "fst (main w) = 1"
    "trace (snd (main w)) = trace w @ [Print (MsgErrorFindingConfig err)]"
    by (simp_all add: fmt_Printf_def)
  moreover have "\<forall>e \<in> set [Print (MsgErrorFindingConfig err)]. preLaunch e"
    by (simp add: preLaunch_def)
  ultimately show ?thesis by blast
next
  case (loadError configPath err w1)
  obtain es where es: "snd (loadConfig configPath w) = w\<lparr>trace := trace w @ es\<rparr>"
    "\<forall>e \<in> set es. preLaunch e"
    by (rule loadConfig_preLaunch)
  with loadError have "fst (main w) = 1"
    "trace (snd (main w)) = trace w @ (es @ [Print (MsgErrorLoadingConfig configPath err)])"
    by (simp_all add: fmt_Printf_def)
  moreover have "\<forall>e \<in> set (es @ [Print (MsgErrorLoadingConfig configPath err)]). preLaunch e"
    using es(2) by (simp add: preLaunch_def)
  ultimately show ?thesis by blast
next
  case (cwdError configPath config w1)
  obtain es where es: "snd (loadConfig configPath w) = w\<lparr>trace := trace w @ es\<rparr>"
    "\<forall>e \<in> set es. preLaunch e"
    by (rule loadConfig_preLaunch)
  with cwdError have "fst (main w) = 1"
    "trace (snd (main w)) = trace w @ (es @ [Print MsgErrorCurrentDir])"
    by (simp_all add: fmt_Printf_def)
  moreover have "\<forall>e \<in> set (es @ [Print MsgErrorCurrentDir]). preLaunch e"
    using es(2) by (simp add: preLaunch_def)
  ultimately show ?thesis by blast
next
  case (noVersion configPath config w1 cwd w2)
  obtain es where es: "snd (loadConfig configPath w) = w\<lparr>trace := trace w @ es\<rparr>"
    "\<forall>e \<in> set es. preLaunch e"
    by (rule loadConfig_preLaunch)
  obtain es2 where es2: "trace (snd (getPhpVersion cwd config w1)) = trace w1 @ es2"
    "\<forall>e \<in> set es2. preLaunch e"
    by (rule getPhpVersion_preLaunch)
  from noVersion es es2 have "fst (main w) = 1"
    "trace (snd (main w)) = trace w @ (es @ es2)"
    by simp_all
  moreover have "\<forall>e \<in> set (es @ es2). preLaunch e"
    using es(2) es2(2) by auto
  ultimately show ?thesis by blast
next
  case (notInConfig configPath config w1 cwd version w2)
  from notInConfig(2) have "\<forall>(k, v) \<in> set config. v \<noteq> []"
    by (intro loadConfig_values [of configPath w]) simp
  moreover from notInConfig(4) have "fst (getPhpVersion cwd config w1) = Some version"
    by simp
  ultimately have "\<exists>phpPath. map_of config version = Some phpPath \<and> phpPath \<noteq> []"
    by (rule getPhpVersion_bound)
  with notInConfig(5) show ?thesis by simp
next
  case (notFound configPath config w1 cwd version w2 phpPath)
  obtain es where es: "snd (loadConfig configPath w) = w\<lparr>trace := trace w @ es\<rparr>"
    "\<forall>e \<in> set es. preLaunch e"
    by (rule loadConfig_preLaunch)
  obtain es2 where es2: "trace (snd (getPhpVersion cwd config w1)) = trace w1 @ es2"
    "\<forall>e \<in> set es2. preLaunch e"
    by (rule getPhpVersion_preLaunch)
  from notFound es es2 have "fst (main w) = 1"
    "trace (snd (main w)) = trace w @ (es @ es2 @ [Print (MsgExecutableNotFound phpPath)])"
    by (simp_all add: fmt_Printf_def)
  moreover have "\<forall>e \<in> set (es @ es2 @ [Print (MsgExecutableNotFound phpPath)]). preLaunch e"
    using es(2) es2(2) by (auto simp: preLaunch_def)
  ultimately show ?thesis by blast
next
  case (run configPath config w1 cwd version w2 phpPath)
  obtain es where es: "snd (loadConfig configPath w) = w\<lparr>trace := trace w @ es\<rparr>"
    "\<forall>e \<in> set es. preLaunch e"
    by (rule loadConfig_preLaunch)
  obtain es2 where es2: "trace (snd (getPhpVersion cwd config w1)) = trace w1 @ es2"
    "\<forall>e \<in> set es2. preLaunch e"
    by (rule getPhpVersion_preLaunch)
  have w1: "w1 = w\<lparr>trace := trace w @ es\<rparr>" using run(2) es(1) by simp
  have fr: "child w2 = child w" "args w2 = args w"
    using getPhpVersion_frame [of cwd config w1] run(4) w1 by simp_all
  have t2: "trace w2 = trace w @ (es @ es2)" using es2(1) run(4) w1 by simp
  let ?rest = "if (\<exists>s. cmd_Run (child w phpPath (args w)) = Some (ExitError (Some s)))
                  \<or> cmd_Run (child w phpPath (args w)) = None
               then [] else [Print MsgErrorExecuting]"
  have "trace (snd (main w)) = trace w @ (es @ es2) @ RunChild phpPath (args w) # ?rest"
    using run(7) fr t2
    by (auto simp: fmt_Printf_def split: option.splits run_error.splits)
  moreover have "fst (main w) = exitCodeFor (child w phpPath (args w))"
    using run(7) fr by (auto simp: exitCodeFor_def split: option.splits run_error.splits)
  moreover have "\<forall>e \<in> set (es @ es2). preLaunch e" using es(2) es2(2) by auto
  moreover have "\<forall>e \<in> set ?rest. preLaunch e" by (simp add: preLaunch_def)
  ultimately show ?thesis by blast
qed

subsection \<open>The exit code\<close>

lemma exitCodeFor_simps [simp]:
  "exitCodeFor NotStarted = 1" "exitCodeFor (Exited c) = c" "exitCodeFor Signaled = - 1"
  by (simp_all add: exitCodeFor_def)

lemma main_no_child:
  assumes "\<forall>p a. RunChild p a \<notin> set (drop (length (trace w)) (trace (snd (main w))))"
  shows "fst (main w) = 1"
proof -
  from main_shape [of w] show ?thesis
  proof (elim disjE exE conjE)
    assume "fst (main w) = 1"
    then show ?thesis .
  next
    fix phpPath es rest
    assume "trace (snd (main w)) = trace w @ es @ RunChild phpPath (args w) # rest"
    then have "RunChild phpPath (args w) \<in> set (drop (length (trace w)) (trace (snd (main w))))"
      by simp
    with assms show ?thesis by blast
  qed
qed

lemma main_child:
  assumes "RunChild p a \<in> set (drop (length (trace w)) (trace (snd (main w))))"
  shows "a = args w \<and> fst (main w) = exitCodeFor (child w p a)"
proof -
  have np: "\<not> preLaunch (RunChild p a)" by (simp add: preLaunch_def)
  from main_shape [of w] show ?thesis
  proof (elim disjE exE conjE)
    fix es
    assume "trace (snd (main w)) = trace w @ es" "\<forall>e \<in> set es. preLaunch e"
    with assms np show ?thesis by auto
  next
    fix phpPath es rest
    assume t: "trace (snd (main w)) = trace w @ es @ RunChild phpPath (args w) # rest"
      and p: "\<forall>e \<in> set es. preLaunch e" "\<forall>e \<in> set rest. preLaunch e"
      and x: "fst (main w) = exitCodeFor (child w phpPath (args w))"
    from assms t have "RunChild p a \<in> set es \<or> (p = phpPath \<and> a = args w)
        \<or> RunChild p a \<in> set rest"
      by auto
    with p np have "p = phpPath \<and> a = args w" by blast
    with x show ?thesis by simp
  qed
qed

lemma main_find_error: "snd (findConfigFile w) \<noteq> None \<Longrightarrow> fst (main w) = 1"
  by (cases "findConfigFile w") (auto simp: main_def)

lemma main_load_error:
  assumes "snd (findConfigFile w) = None"
    and "fst (loadConfig (fst (findConfigFile w)) w) = Inl err"
  shows "fst (main w) = 1"
proof -
  obtain configPath where f: "findConfigFile w = (configPath, None)"
    using assms(1) by (cases "findConfigFile w") auto
  with assms(2) obtain w1 where "loadConfig configPath w = (Inl err, w1)"
    by (cases "loadConfig configPath w") auto
  with f show ?thesis by (simp add: main_def)
qed

lemma main_getwd_error:
  assumes "snd (findConfigFile w) = None"
    and "fst (loadConfig (fst (findConfigFile w)) w) = Inr config"
    and "getwd w = None"
  shows "fst (main w) = 1"
proof -
  obtain configPath where f: "findConfigFile w = (configPath, None)"
    using assms(1) by (cases "findConfigFile w") auto
  with assms(2) obtain w1 where l: "loadConfig configPath w = (Inr config, w1)"
    by (cases "loadConfig configPath w") auto
  obtain es where "snd (loadConfig configPath w) = w\<lparr>trace := trace w @ es\<rparr>"
    by (rule loadConfig_preLaunch)
  with l assms(3) have "getwd w1 = None" by simp
  with f l show ?thesis by (simp add: main_def)
qed

lemma main_resolve_error:
  assumes "snd (findConfigFile w) = None"
    and "fst (loadConfig (fst (findConfigFile w)) w) = Inr config"
    and "getwd w = Some cwd"
    and "fst (getPhpVersion cwd config (snd (loadConfig (fst (findConfigFile w)) w))) = None"
  shows "fst (main w) = 1"
proof -
  obtain configPath where f: "findConfigFile w = (configPath, None)"
    using assms(1) by (cases "findConfigFile w") auto
  with assms(2) obtain w1 where l: "loadConfig configPath w = (Inr config, w1)"
    by (cases "loadConfig configPath w") auto
  obtain es where "snd (loadConfig configPath w) = w\<lparr>trace := trace w @ es\<rparr>"
    by (rule loadConfig_preLaunch)
  with l assms(3) have g: "getwd w1 = Some cwd" by simp
  from assms(4) f l obtain w2 where "getPhpVersion cwd config w1 = (None, w2)"
    by (cases "getPhpVersion cwd config w1") auto
  with f l g show ?thesis by (simp add: main_def)
qed

text \<open>
  C9. The exit code of \<open>main\<close>. It is 1 when the configuration file is not found, when
  the configuration cannot be loaded, when the current directory cannot be determined and
  when version resolution finds no version; more generally it is 1 whenever \<open>main\<close> ends
  without having run the child. When it has run the child, with the arguments it was
  given, the exit code is 1 if the child could not be started, and it is the exit code of
  the child, zero or not, if the child exited.
\<close>

theorem main_exit_code:
  "(snd (findConfigFile w) \<noteq> None \<longrightarrow> fst (main w) = 1)
   \<and> (\<forall>err. snd (findConfigFile w) = None
          \<and> fst (loadConfig (fst (findConfigFile w)) w) = Inl err \<longrightarrow> fst (main w) = 1)
   \<and> (\<forall>config. snd (findConfigFile w) = None
          \<and> fst (loadConfig (fst (findConfigFile w)) w) = Inr config
          \<and> getwd w = None \<longrightarrow> fst (main w) = 1)
   \<and> (\<forall>config cwd. snd (findConfigFile w) = None
          \<and> fst (loadConfig (fst (findConfigFile w)) w) = Inr config
          \<and> getwd w = Some cwd
          \<and> fst (getPhpVersion cwd config (snd (loadConfig (fst (findConfigFile w)) w))) = None
          \<longrightarrow> fst (main w) = 1)
   \<and> ((\<forall>p a. RunChild p a \<notin> set (drop (length (trace w)) (trace (snd (main w)))))
          \<longrightarrow> fst (main w) = 1)
   \<and> (\<forall>p a. RunChild p a \<in> set (drop (length (trace w)) (trace (snd (main w)))) \<longrightarrow>
          a = args w
          \<and> (child w p a = NotStarted \<longrightarrow> fst (main w) = 1)
          \<and> (\<forall>c. child w p a = Exited c \<longrightarrow> fst (main w) = c))"
proof (intro conjI allI impI)
  assume "snd (findConfigFile w) \<noteq> None"
  then show "fst (main w) = 1" by (rule main_find_error)
next
  fix err
  assume "snd (findConfigFile w) = None
      \<and> fst (loadConfig (fst (findConfigFile w)) w) = Inl err"
  then show "fst (main w) = 1" using main_load_error by blast
next
  fix config
  assume "snd (findConfigFile w) = None
      \<and> fst (loadConfig (fst (findConfigFile w)) w) = Inr config \<and> getwd w = None"
  then show "fst (main w) = 1" using main_getwd_error by blast
next
  fix config cwd
  assume "snd (findConfigFile w) = None
      \<and> fst (loadConfig (fst (findConfigFile w)) w) = Inr config
      \<and> getwd w = Some cwd
      \<and> fst (getPhpVersion cwd config (snd (loadConfig (fst (findConfigFile w)) w))) = None"
  then show "fst (main w) = 1" using main_resolve_error by blast
next
  assume "\<forall>p a. RunChild p a \<notin> set (drop (length (trace w)) (trace (snd (main w))))"
  then show "fst (main w) = 1" by (rule main_no_child)
next
  fix p a
  assume "RunChild p a \<in> set (drop (length (trace w)) (trace (snd (main w))))"
  then show "a = args w" using main_child by blast
next
  fix p a
  assume "RunChild p a \<in> set (drop (length (trace w)) (trace (snd (main w))))"
    and "child w p a = NotStarted"
  then show "fst (main w) = 1" using main_child [of p a w] by simp
next
  fix p a c
  assume "RunChild p a \<in> set (drop (length (trace w)) (trace (snd (main w))))"
    and "child w p a = Exited c"
  then show "fst (main w) = c" using main_child [of p a w] by simp
qed


theorem main_exit_code_witness:
  "snd (findConfigFile world0) \<noteq> None \<and> fst (main world0) = 1
   \<and> RunChild ''/usr/bin/php8.2'' [''--version'']
        \<in> set (drop (length (trace runWorld)) (trace (snd (main runWorld))))
   \<and> child runWorld ''/usr/bin/php8.2'' [''--version''] = Exited 3
   \<and> fst (main runWorld) = 3"
proof -
  note z = main_exit_code [of world0]
  have a: "snd (findConfigFile world0) \<noteq> None"
    by code_simp
  from z have "snd (findConfigFile world0) \<noteq> None \<longrightarrow> fst (main world0) = 1"
    by (rule conjunct1)
  with a have b: "fst (main world0) = 1" by (rule rev_mp)
  note r = main_exit_code [of runWorld]
  have c: "RunChild ''/usr/bin/php8.2'' [''--version'']
        \<in> set (drop (length (trace runWorld)) (trace (snd (main runWorld))))"
    by code_simp
  have d: "child runWorld ''/usr/bin/php8.2'' [''--version''] = Exited 3"
    by (simp add: runWorld_def)
  from r have "\<forall>p a. RunChild p a
        \<in> set (drop (length (trace runWorld)) (trace (snd (main runWorld)))) \<longrightarrow>
          a = args runWorld
          \<and> (child runWorld p a = NotStarted \<longrightarrow> fst (main runWorld) = 1)
          \<and> (\<forall>c. child runWorld p a = Exited c \<longrightarrow> fst (main runWorld) = c)"
    by (rule conjunct2 [OF conjunct2 [OF conjunct2 [OF conjunct2 [OF conjunct2]]]])
  with c have "\<forall>c. child runWorld ''/usr/bin/php8.2'' [''--version''] = Exited c
      \<longrightarrow> fst (main runWorld) = c"
    by blast
  with d have e: "fst (main runWorld) = 3" by blast
  from a b c d e show ?thesis by (intro conjI)
qed

subsection \<open>The resolved version is configured\<close>

text \<open>
  C10. When \<open>getPhpVersion\<close> returns a label for a configuration that \<open>loadConfig\<close> has
  returned, the label is a key of the configuration bound to a non-empty path. So \<open>main\<close>
  never prints that the version was not found in the configuration.
\<close>

theorem resolved_version_in_config:
  "(fst (loadConfig configPath w0) = Inr config
      \<and> fst (getPhpVersion cwd config w1) = Some version \<longrightarrow>
        (\<exists>phpPath. map_of config version = Some phpPath \<and> phpPath \<noteq> []))
   \<and> (\<forall>v. Print (MsgVersionNotInConfig v)
          \<notin> set (drop (length (trace w)) (trace (snd (main w)))))"
proof (intro conjI allI impI)
  assume a: "fst (loadConfig configPath w0) = Inr config
      \<and> fst (getPhpVersion cwd config w1) = Some version"
  then have "\<forall>(k, v) \<in> set config. v \<noteq> []"
    using loadConfig_values by blast
  moreover from a have "fst (getPhpVersion cwd config w1) = Some version" by simp
  ultimately show "\<exists>phpPath. map_of config version = Some phpPath \<and> phpPath \<noteq> []"
    by (rule getPhpVersion_bound)
next
  fix v
  have np: "\<not> preLaunch (Print (MsgVersionNotInConfig v))" by (simp add: preLaunch_def)
  from main_shape [of w]
  show "Print (MsgVersionNotInConfig v)
      \<notin> set (drop (length (trace w)) (trace (snd (main w))))"
  proof (elim disjE exE conjE)
    fix es
    assume "trace (snd (main w)) = trace w @ es" "\<forall>e \<in> set es. preLaunch e"
    with np show ?thesis by auto
  next
    fix phpPath es rest
    assume "trace (snd (main w)) = trace w @ es @ RunChild phpPath (args w) # rest"
      "\<forall>e \<in> set es. preLaunch e" "\<forall>e \<in> set rest. preLaunch e"
    with np show ?thesis by auto
  qed
qed

theorem resolved_version_in_config_witness:
  "fst (loadConfig ''/etc/php-runner.yaml'' runWorld) = Inr [(''8.2'', ''/usr/bin/php8.2'')]
   \<and> fst (getPhpVersion ''/p'' [(''8.2'', ''/usr/bin/php8.2'')] runWorld) = Some ''8.2''
   \<and> (\<exists>phpPath. map_of [(''8.2'', ''/usr/bin/php8.2'')] ''8.2'' = Some phpPath
          \<and> phpPath \<noteq> [])"
proof -
  have a: "fst (loadConfig ''/etc/php-runner.yaml'' runWorld) = Inr [(''8.2'', ''/usr/bin/php8.2'')]"
    by code_simp
  have b: "fst (getPhpVersion ''/p'' [(''8.2'', ''/usr/bin/php8.2'')] runWorld) = Some ''8.2''"
    by code_simp
  from resolved_version_in_config [of "''/etc/php-runner.yaml''" runWorld
      "[(''8.2'', ''/usr/bin/php8.2'')]" "''/p''" runWorld "''8.2''" runWorld]
  have "fst (loadConfig ''/etc/php-runner.yaml'' runWorld) = Inr [(''8.2'', ''/usr/bin/php8.2'')]
      \<and> fst (getPhpVersion ''/p'' [(''8.2'', ''/usr/bin/php8.2'')] runWorld) = Some ''8.2''
      \<longrightarrow> (\<exists>phpPath. map_of [(''8.2'', ''/usr/bin/php8.2'')] ''8.2'' = Some phpPath
          \<and> phpPath \<noteq> [])"
    by (rule conjunct1)
  with a b have c: "\<exists>phpPath. map_of [(''8.2'', ''/usr/bin/php8.2'')] ''8.2'' = Some phpPath
          \<and> phpPath \<noteq> []"
    by blast
  from a b c show ?thesis by (intro conjI)
qed

section \<open>Finding the configuration file\<close>

text \<open>
  The words of the specification: the locations of the user (the profile directory, and
  on Windows the application data directory of the user), the system-wide locations, and
  the directory of the running executable. A file exists at a path when \<^verbatim>\<open>os.Stat\<close>
  returns no error.
\<close>

definition userLocations :: "world \<Rightarrow> path list" where
  "userLocations w =
     (if goos w = ''windows'' then
        (if getenv w ''USERPROFILE'' \<noteq> []
         then [filepath_Join [getenv w ''USERPROFILE'', configFileName]] else []) @
        (if getenv w ''APPDATA'' \<noteq> []
         then [filepath_Join [getenv w ''APPDATA'', configFileName]] else [])
      else
        (if getenv w ''HOME'' \<noteq> []
         then [filepath_Join [getenv w ''HOME'', ''.'' @ configFileName]] else []))"

definition systemLocations :: "world \<Rightarrow> path list" where
  "systemLocations w =
     (if goos w = ''windows'' then
        (if getenv w ''PROGRAMDATA'' \<noteq> []
         then [filepath_Join [getenv w ''PROGRAMDATA'', configFileName]] else [])
      else [filepath_Join [''/etc'', configFileName],
            filepath_Join [''/usr/local'', configFileName]])"

definition executableLocations :: "world \<Rightarrow> path list" where
  "executableLocations w =
     (case executable w of
        Some exePath \<Rightarrow> [filepath_Join [filepath_Dir exePath, configFileName]]
      | None \<Rightarrow> [])"

definition fileExists :: "world \<Rightarrow> path \<Rightarrow> bool" where
  "fileExists w p = (stat w p = None)"

lemma searchPaths_order:
  "searchPaths w = userLocations w @ systemLocations w @ executableLocations w"
  by (simp add: searchPaths_def userLocations_def systemLocations_def executableLocations_def)

lemma find_first:
  assumes "i < length xs" "P (xs ! i)" "\<forall>j < i. \<not> P (xs ! j)"
  shows "find P xs = Some (xs ! i)"
  using assms
proof (induction xs arbitrary: i)
  case Nil
  then show ?case by simp
next
  case (Cons x xs)
  show ?case
  proof (cases i)
    case 0
    with Cons.prems show ?thesis by simp
  next
    case (Suc k)
    with Cons.prems have "\<not> P x" by auto
    moreover from Suc Cons.prems have "find P xs = Some (xs ! k)"
      by (intro Cons.IH) auto
    ultimately show ?thesis using Suc by simp
  qed
qed

lemma Join_lists:
  "p \<in> set ps \<Longrightarrow> \<exists>before after. strings_Join ps sep = before @ p @ after"
proof (induction ps sep rule: strings_Join.induct)
  case (1 sep)
  then show ?case by simp
next
  case (2 x sep)
  then have "strings_Join [x] sep = [] @ p @ []" by simp
  then show ?case by blast
next
  case (3 x y zs sep)
  show ?case
  proof (cases "p = x")
    case True
    then have "strings_Join (x # y # zs) sep = [] @ p @ (sep @ strings_Join (y # zs) sep)"
      by simp
    then show ?thesis by blast
  next
    case False
    with "3.prems" have "p \<in> set (y # zs)" by simp
    then obtain before after where "strings_Join (y # zs) sep = before @ p @ after"
      using "3.IH" by blast
    then have "strings_Join (x # y # zs) sep = (x @ sep @ before) @ p @ after"
      by simp
    then show ?thesis by blast
  qed
qed

text \<open>
  C8. \<open>findConfigFile\<close> probes the locations of the user, then the system-wide ones,
  then the directory of the executable, and returns the first path at which a file exists.
  When no probed path exists it fails, and the error lists all the probed paths: it holds
  them joined by newlines, so every probed path is a part of it. (On Windows, with none of
  the three variables set and no executable path, nothing is probed and the error says so.)
\<close>

theorem findConfigFile_first_existing:
  "searchPaths w = userLocations w @ systemLocations w @ executableLocations w
   \<and> (\<forall>i < length (searchPaths w).
         fileExists w (searchPaths w ! i) \<and> (\<forall>j < i. \<not> fileExists w (searchPaths w ! j)) \<longrightarrow>
         findConfigFile w = (searchPaths w ! i, None))
   \<and> ((\<forall>p \<in> set (searchPaths w). \<not> fileExists w p) \<longrightarrow>
         snd (findConfigFile w) =
           Some (if searchPaths w = [] then NoLocations
                 else ConfigNotFound (strings_Join (searchPaths w) ''\<newline>''))
         \<and> (\<forall>p \<in> set (searchPaths w).
               \<exists>before after. strings_Join (searchPaths w) ''\<newline>'' = before @ p @ after))"
proof (intro conjI allI impI ballI)
  show "searchPaths w = userLocations w @ systemLocations w @ executableLocations w"
    by (rule searchPaths_order)
next
  fix i
  assume "i < length (searchPaths w)"
    and "fileExists w (searchPaths w ! i) \<and> (\<forall>j < i. \<not> fileExists w (searchPaths w ! j))"
  then have "find (\<lambda>p. stat w p = None) (searchPaths w) = Some (searchPaths w ! i)"
    by (intro find_first) (auto simp: fileExists_def)
  then show "findConfigFile w = (searchPaths w ! i, None)"
    by (simp add: findConfigFile_def)
next
  assume "\<forall>p \<in> set (searchPaths w). \<not> fileExists w p"
  then have "find (\<lambda>p. stat w p = None) (searchPaths w) = None"
    by (auto simp: find_None_iff fileExists_def)
  then show "snd (findConfigFile w) =
           Some (if searchPaths w = [] then NoLocations
                 else ConfigNotFound (strings_Join (searchPaths w) ''\<newline>''))"
    by (simp add: findConfigFile_def)
next
  fix p
  assume "p \<in> set (searchPaths w)"
  then show "\<exists>before after. strings_Join (searchPaths w) ''\<newline>'' = before @ p @ after"
    by (rule Join_lists)
qed

definition homeWorld :: world where
  "homeWorld = world0\<lparr>
     getenv := (\<lambda>v. if v = ''HOME'' then ''/home/dev'' else []),
     executable := Some ''/opt/tools/php-runner'',
     stat := (\<lambda>p. if p \<in> set [''/usr/local/php-runner.yaml'', ''/opt/tools/php-runner.yaml'']
                  then None else Some ErrNotExist)\<rparr>"

theorem findConfigFile_first_existing_witness:
  "searchPaths homeWorld = [''/home/dev/.php-runner.yaml'', ''/etc/php-runner.yaml'',
      ''/usr/local/php-runner.yaml'', ''/opt/tools/php-runner.yaml'']
   \<and> \<not> fileExists homeWorld ''/home/dev/.php-runner.yaml''
   \<and> \<not> fileExists homeWorld ''/etc/php-runner.yaml''
   \<and> fileExists homeWorld ''/usr/local/php-runner.yaml''
   \<and> findConfigFile homeWorld = (''/usr/local/php-runner.yaml'', None)
   \<and> snd (findConfigFile world0) =
        Some (ConfigNotFound ''/etc/php-runner.yaml\<newline>/usr/local/php-runner.yaml'')"
proof -
  have sp: "searchPaths homeWorld = [''/home/dev/.php-runner.yaml'', ''/etc/php-runner.yaml'',
      ''/usr/local/php-runner.yaml'', ''/opt/tools/php-runner.yaml'']"
    by code_simp
  have e: "\<not> fileExists homeWorld ''/home/dev/.php-runner.yaml''"
    "\<not> fileExists homeWorld ''/etc/php-runner.yaml''"
    "fileExists homeWorld ''/usr/local/php-runner.yaml''"
    by code_simp+
  have before: "\<forall>j < 2. \<not> fileExists homeWorld (searchPaths homeWorld ! j)"
    using e(1,2) by (auto simp: sp less_2_cases_iff)
  note h = findConfigFile_first_existing [of homeWorld]
  from h have "\<forall>i < length (searchPaths homeWorld).
         fileExists homeWorld (searchPaths homeWorld ! i)
         \<and> (\<forall>j < i. \<not> fileExists homeWorld (searchPaths homeWorld ! j)) \<longrightarrow>
         findConfigFile homeWorld = (searchPaths homeWorld ! i, None)"
    by (rule conjunct1 [OF conjunct2])
  then have "2 < length (searchPaths homeWorld) \<longrightarrow>
         fileExists homeWorld (searchPaths homeWorld ! 2)
         \<and> (\<forall>j < 2. \<not> fileExists homeWorld (searchPaths homeWorld ! j)) \<longrightarrow>
         findConfigFile homeWorld = (searchPaths homeWorld ! 2, None)"
    by (rule spec)
  moreover have "2 < length (searchPaths homeWorld)" by (simp add: sp)
  moreover have "fileExists homeWorld (searchPaths homeWorld ! 2)" using e(3) by (simp add: sp)
  ultimately have "findConfigFile homeWorld = (searchPaths homeWorld ! 2, None)"
    using before by blast
  then have f: "findConfigFile homeWorld = (''/usr/local/php-runner.yaml'', None)"
    by (simp add: sp)
  note z = findConfigFile_first_existing [of world0]
  have none: "\<forall>p \<in> set (searchPaths world0). \<not> fileExists world0 p"
    by (simp add: fileExists_def world0_def)
  have sz: "searchPaths world0 = [''/etc/php-runner.yaml'', ''/usr/local/php-runner.yaml'']"
    by code_simp
  from z none have "snd (findConfigFile world0) =
           Some (if searchPaths world0 = [] then NoLocations
                 else ConfigNotFound (strings_Join (searchPaths world0) ''\<newline>''))"
    by blast
  then have g: "snd (findConfigFile world0) =
        Some (ConfigNotFound ''/etc/php-runner.yaml\<newline>/usr/local/php-runner.yaml'')"
    by (simp add: sz)
  from sp e f g show ?thesis by (intro conjI)
qed

end
